theory Spec2Isabelle
  imports Main "HOL-Library.Word"
begin

section \<open>The sequential-thinking session store (sequential-thinking/main.go)\<close>

text \<open>
  The Go program keeps its sessions behind pointers: the store's map holds
  \<^verbatim>\<open>*ThinkingSession\<close>, a session holds a slice of \<^verbatim>\<open>*Thought\<close> and a slice of branch
  ids. Whether a caller sees a copy or the stored object is a question of aliasing, so the
  embedding has an explicit memory: one function from addresses to values for each type
  of object the program allocates, and a counter that hands out fresh addresses. Address
  0 is the nil pointer. A Go \<^verbatim>\<open>int\<close> is a 64-bit word; \<^verbatim>\<open>time.Time\<close> is an opaque clock
  reading.
\<close>

subsection \<open>Data model\<close>

type_synonym addr = nat
type_synonym go_int = "64 word"
type_synonym go_time = nat

text \<open>\<^verbatim>\<open>type Thought struct\<close>. \<open>ParentIndex\<close> is a \<^verbatim>\<open>*int\<close>; the program never
  assigns or dereferences it, so only the pointer itself is kept.\<close>

record Thought =
  Index :: go_int
  Content :: string
  Created :: go_time
  Revised :: bool
  ParentIndex :: addr

text \<open>A slice header: the address of the backing array, the length and the capacity.
  The nil slice has array 0, length 0 and capacity 0.\<close>

record slice =
  sl_array :: addr
  sl_len :: nat
  sl_cap :: nat

definition nil_slice :: slice where
  "nil_slice = \<lparr>sl_array = 0, sl_len = 0, sl_cap = 0\<rparr>"

text \<open>\<^verbatim>\<open>type ThinkingSession struct\<close>. The record is polymorphic in the two slice fields:
  in memory they are slice headers; read out of memory (\<open>view\<close> below) they are the
  list of thoughts and the list of branch ids.\<close>

record ('t, 'b) ThinkingSession =
  ID :: string
  Problem :: string
  Thoughts :: 't
  CurrentThought :: go_int
  EstimatedTotal :: go_int
  Status :: string
  SessionCreated :: go_time
  LastActivity :: go_time
  Branches :: 'b
  Version :: go_int

type_synonym session_obj = "(slice, slice) ThinkingSession"
type_synonym session_view = "(Thought list, string list) ThinkingSession"

text \<open>
  The state of the process: \<open>sessions\<close> is the map of the global \<^verbatim>\<open>store\<close>
  (\<^verbatim>\<open>SessionStore.sessions\<close>), the four memories hold the allocated objects, and the
  remaining fields are the environment: the readings \<^verbatim>\<open>time.Now()\<close> will return, the
  texts \<^verbatim>\<open>rand.Text()\<close> will return, and the capacity the runtime picks when it has to
  allocate a backing array (given the old capacity and the length needed).
\<close>

record world =
  sessions :: "string \<rightharpoonup> addr"
  session_mem :: "addr \<Rightarrow> session_obj"
  thought_mem :: "addr \<Rightarrow> Thought"
  thought_arrays :: "addr \<Rightarrow> addr list"
  string_arrays :: "addr \<Rightarrow> string list"
  next_addr :: addr
  clock :: "nat \<Rightarrow> go_time"
  ticks :: nat
  rand_source :: "nat \<Rightarrow> string"
  rand_count :: nat
  grow_policy :: "nat \<Rightarrow> nat \<Rightarrow> nat"

datatype error = NotFound string | InvalidStepNumber go_int

subsection \<open>Runtime primitives\<close>

definition alloc :: "world \<Rightarrow> addr \<times> world" where
  "alloc w = (next_addr w, w\<lparr>next_addr := Suc (next_addr w)\<rparr>)"

definition time_Now :: "world \<Rightarrow> go_time \<times> world" where
  "time_Now w = (clock w (ticks w), w\<lparr>ticks := Suc (ticks w)\<rparr>)"

definition rand_Text :: "world \<Rightarrow> string \<times> world" where
  "rand_Text w = (rand_source w (rand_count w), w\<lparr>rand_count := Suc (rand_count w)\<rparr>)"

text \<open>\<^verbatim>\<open>&ThinkingSession{...}\<close> and \<^verbatim>\<open>&Thought{...}\<close>: a fresh object holding the value.\<close>

definition new_session :: "session_obj \<Rightarrow> world \<Rightarrow> addr \<times> world" where
  "new_session s w =
     (let (p, w1) = alloc w
      in (p, w1\<lparr>session_mem := (session_mem w1)(p := s)\<rparr>))"

definition new_thought :: "Thought \<Rightarrow> world \<Rightarrow> addr \<times> world" where
  "new_thought t w =
     (let (p, w1) = alloc w
      in (p, w1\<lparr>thought_mem := (thought_mem w1)(p := t)\<rparr>))"

text \<open>\<^verbatim>\<open>make([]*Thought, n)\<close>: a fresh array of \<open>n\<close> nil pointers.\<close>

definition make_thoughts :: "nat \<Rightarrow> world \<Rightarrow> slice \<times> world" where
  "make_thoughts n w =
     (let (a, w1) = alloc w
      in (\<lparr>sl_array = a, sl_len = n, sl_cap = n\<rparr>,
          w1\<lparr>thought_arrays := (thought_arrays w1)(a := replicate n 0)\<rparr>))"

text \<open>The elements a slice header gives access to.\<close>

definition thought_ptrs :: "world \<Rightarrow> slice \<Rightarrow> addr list" where
  "thought_ptrs w s = take (sl_len s) (thought_arrays w (sl_array s))"

definition branch_ids :: "world \<Rightarrow> slice \<Rightarrow> string list" where
  "branch_ids w s = take (sl_len s) (string_arrays w (sl_array s))"

text \<open>
  The built-in \<^verbatim>\<open>append\<close> on one element: in place when the capacity allows, otherwise
  into a fresh array that is at least as long as needed.
\<close>

definition append_thought :: "slice \<Rightarrow> addr \<Rightarrow> world \<Rightarrow> slice \<times> world" where
  "append_thought s x w =
     (if sl_len s < sl_cap s then
        (s\<lparr>sl_len := Suc (sl_len s)\<rparr>,
         w\<lparr>thought_arrays := (thought_arrays w)
              (sl_array s := (thought_arrays w (sl_array s))[sl_len s := x])\<rparr>)
      else
        (let n = Suc (sl_len s);
             c = max n (grow_policy w (sl_cap s) n);
             (a, w1) = alloc w
         in (\<lparr>sl_array = a, sl_len = n, sl_cap = c\<rparr>,
             w1\<lparr>thought_arrays := (thought_arrays w1)
                  (a := thought_ptrs w s @ [x] @ replicate (c - n) 0)\<rparr>)))"

definition append_string :: "slice \<Rightarrow> string \<Rightarrow> world \<Rightarrow> slice \<times> world" where
  "append_string s x w =
     (if sl_len s < sl_cap s then
        (s\<lparr>sl_len := Suc (sl_len s)\<rparr>,
         w\<lparr>string_arrays := (string_arrays w)
              (sl_array s := (string_arrays w (sl_array s))[sl_len s := x])\<rparr>)
      else
        (let n = Suc (sl_len s);
             c = max n (grow_policy w (sl_cap s) n);
             (a, w1) = alloc w
         in (\<lparr>sl_array = a, sl_len = n, sl_cap = c\<rparr>,
             w1\<lparr>string_arrays := (string_arrays w1)
                  (a := branch_ids w s @ [x] @ replicate (c - n) [])\<rparr>)))"

text \<open>
  \<^verbatim>\<open>gslice.Clone\<close> (github.com/bytedance/gg): nil for a nil slice, otherwise a shallow
  copy in a fresh array.
\<close>

definition gslice_Clone :: "slice \<Rightarrow> world \<Rightarrow> slice \<times> world" where
  "gslice_Clone s w =
     (if sl_array s = 0 then (nil_slice, w)
      else
        (let n = sl_len s;
             c = max n (grow_policy w 0 n);
             (a, w1) = alloc w
         in (\<lparr>sl_array = a, sl_len = n, sl_cap = c\<rparr>,
             w1\<lparr>string_arrays := (string_arrays w1)
                  (a := branch_ids w s @ replicate (c - n) [])\<rparr>)))"

text \<open>The verb \<^verbatim>\<open>%d\<close> of \<^verbatim>\<open>fmt.Sprintf\<close> on an \<^verbatim>\<open>int\<close>.\<close>

definition digit_char :: "nat \<Rightarrow> char" where
  "digit_char d = ''0123456789'' ! d"

function format_nat :: "nat \<Rightarrow> string" where
  "format_nat n =
     (if n < 10 then [digit_char n] else format_nat (n div 10) @ [digit_char (n mod 10)])"
  by pat_completeness auto
termination
  by (relation "measure (\<lambda>n. n)") auto

declare format_nat.simps [simp del]

definition format_d :: "go_int \<Rightarrow> string" where
  "format_d i =
     (if sint i < 0 then CHR ''-'' # format_nat (nat (- sint i)) else format_nat (nat (sint i)))"

subsection \<open>Copies\<close>

text \<open>\<^verbatim>\<open>deepCopyThoughts\<close>: the loop body copies thought \<open>t\<close> into a fresh object and
  stores its address at index \<open>i\<close> of the new array.\<close>

fun copy_thoughts_loop :: "addr \<Rightarrow> nat \<Rightarrow> addr list \<Rightarrow> world \<Rightarrow> world" where
  "copy_thoughts_loop a i [] w = w"
| "copy_thoughts_loop a i (t # ts) w =
     (let (t2, w1) = new_thought (thought_mem w t) w;
          w2 = w1\<lparr>thought_arrays := (thought_arrays w1)(a := (thought_arrays w1 a)[i := t2])\<rparr>
      in copy_thoughts_loop a (Suc i) ts w2)"

definition deepCopyThoughts :: "slice \<Rightarrow> world \<Rightarrow> slice \<times> world" where
  "deepCopyThoughts thoughts w =
     (let (thoughtsCopy, w1) = make_thoughts (sl_len thoughts) w;
          w2 = copy_thoughts_loop (sl_array thoughtsCopy) 0 (thought_ptrs w thoughts) w1
      in (thoughtsCopy, w2))"

text \<open>\<^verbatim>\<open>func (s *ThinkingSession) clone()\<close>.\<close>

definition clone :: "addr \<Rightarrow> world \<Rightarrow> addr \<times> world" where
  "clone s w =
     (let (sessionCopy, w1) = new_session (session_mem w s) w;
          (ts, w2) = deepCopyThoughts (Thoughts (session_mem w1 s)) w1;
          w3 = w2\<lparr>session_mem := (session_mem w2)
                 (sessionCopy := (session_mem w2 sessionCopy)\<lparr>Thoughts := ts\<rparr>)\<rparr>;
          (bs, w4) = gslice_Clone (Branches (session_mem w3 s)) w3;
          w5 = w4\<lparr>session_mem := (session_mem w4)
                 (sessionCopy := (session_mem w4 sessionCopy)\<lparr>Branches := bs\<rparr>)\<rparr>
      in (sessionCopy, w5))"

subsection \<open>Reading a session out of memory\<close>

definition thoughts_at :: "world \<Rightarrow> slice \<Rightarrow> Thought list" where
  "thoughts_at w s = map (thought_mem w) (thought_ptrs w s)"

definition view :: "world \<Rightarrow> addr \<Rightarrow> session_view" where
  "view w p =
     (let s = session_mem w p
      in \<lparr>ID = ID s, Problem = Problem s, Thoughts = thoughts_at w (Thoughts s),
          CurrentThought = CurrentThought s, EstimatedTotal = EstimatedTotal s,
          Status = Status s, SessionCreated = SessionCreated s,
          LastActivity = LastActivity s, Branches = branch_ids w (Branches s),
          Version = Version s\<rparr>)"

subsection \<open>The store\<close>

text \<open>
  The methods of \<^verbatim>\<open>SessionStore\<close> on the global \<^verbatim>\<open>store\<close>. A call runs alone here, so
  taking and releasing \<^verbatim>\<open>mu\<close> has no effect and is left out. A pointer that the
  Go code returns is an address; \<^verbatim>\<open>nil\<close> is 0.
\<close>

definition Session :: "string \<Rightarrow> world \<Rightarrow> addr \<times> bool" where
  "Session sid w =
     (case sessions w sid of
        None \<Rightarrow> (0, False)
      | Some session \<Rightarrow> (session, True))"

definition SetSession :: "addr \<Rightarrow> world \<Rightarrow> world" where
  "SetSession session w = w\<lparr>sessions := (sessions w)(ID (session_mem w session) \<mapsto> session)\<rparr>"

definition SessionSnapshot :: "string \<Rightarrow> world \<Rightarrow> (addr \<times> bool) \<times> world" where
  "SessionSnapshot sid w =
     (case sessions w sid of
        None \<Rightarrow> ((0, False), w)
      | Some session \<Rightarrow> (let (c, w1) = clone session w in ((c, True), w1)))"

text \<open>
  \<^verbatim>\<open>CompareAndSwap\<close>. The \<^verbatim>\<open>for\<close> loop has no bound, so the function is partial:
  \<open>None\<close> is a call that never returns. \<open>updateFunc\<close> is the closure; what it
  assigns to variables of the enclosing function is returned beside the updated session
  (\<open>'r\<close>) and handed back on success. The result \<open>Inl err\<close> is \<^verbatim>\<open>return err\<close>.
\<close>

partial_function (option) CompareAndSwap ::
  "string \<Rightarrow> (addr \<Rightarrow> world \<Rightarrow> (error + addr \<times> 'r) \<times> world) \<Rightarrow> world
    \<Rightarrow> ((error + 'r) \<times> world) option"
where
  "CompareAndSwap sessionID updateFunc w =
     (case sessions w sessionID of
        None \<Rightarrow> Some (Inl (NotFound sessionID), w)
      | Some current \<Rightarrow>
          (let (sessionCopy, w1) = clone current w;
               oldVersion = Version (session_mem w1 current);
               (res, w2) = updateFunc sessionCopy w1
           in case res of
                Inl err \<Rightarrow> Some (Inl err, w2)
              | Inr (updated, r) \<Rightarrow>
                  (case sessions w2 sessionID of
                     None \<Rightarrow> Some (Inl (NotFound sessionID), w2)
                   | Some current' \<Rightarrow>
                       if Version (session_mem w2 current') \<noteq> oldVersion
                       then CompareAndSwap sessionID updateFunc w2
                       else
                         (let w3 = w2\<lparr>session_mem := (session_mem w2)
                                     (updated := (session_mem w2 updated)
                                        \<lparr>Version := oldVersion + 1\<rparr>)\<rparr>;
                              w4 = w3\<lparr>sessions := (sessions w3)(sessionID \<mapsto> updated)\<rparr>
                          in Some (Inr r, w4)))))"

declare CompareAndSwap.simps [code]

subsection \<open>The tool handlers\<close>

record StartThinkingArgs =
  st_Problem :: string
  st_SessionID :: string
  st_EstimatedSteps :: go_int

record ContinueThinkingArgs =
  ct_SessionID :: string
  ct_Thought :: string
  ct_NextNeeded :: "bool option"
  ct_ReviseStep :: "go_int option"
  ct_CreateBranch :: bool
  ct_EstimatedTotal :: go_int

definition quote :: string where
  "quote = [CHR 0x27]"

definition newline :: string where
  "newline = [CHR 0x0A]"

text \<open>\<^verbatim>\<open>StartThinking\<close>. The result is the text of the reply, or the error.\<close>

definition StartThinking :: "StartThinkingArgs \<Rightarrow> world \<Rightarrow> (error + string) \<times> world" where
  "StartThinking args w =
     (let (sessionID, w1) =
            (if st_SessionID args = [] then rand_Text w else (st_SessionID args, w));
          estimatedSteps =
            (if st_EstimatedSteps args = 0 then 5 else st_EstimatedSteps args);
          (created, w2) = time_Now w1;
          (lastActivity, w3) = time_Now w2;
          (session, w4) = new_session
             \<lparr>ID = sessionID, Problem = st_Problem args, Thoughts = nil_slice,
              CurrentThought = 0, EstimatedTotal = estimatedSteps, Status = ''active'',
              SessionCreated = created, LastActivity = lastActivity, Branches = nil_slice,
              Version = 0\<rparr> w3;
          w5 = SetSession session w4
      in (Inr (''Started thinking session '' @ quote @ sessionID @ quote
                 @ '' for problem: '' @ st_Problem args @ newline
                 @ ''Estimated steps: '' @ format_d estimatedSteps @ newline
                 @ ''Ready for your first thought.''), w5))"

text \<open>The closure of the revision branch of \<^verbatim>\<open>ContinueThinking\<close>.\<close>

definition reviseFunc ::
  "ContinueThinkingArgs \<Rightarrow> go_int \<Rightarrow> addr \<Rightarrow> world \<Rightarrow> (error + addr \<times> unit) \<times> world"
where
  "reviseFunc args reviseStep session w =
     (let stepIndex = reviseStep - 1
      in if sint stepIndex < 0
            \<or> int (sl_len (Thoughts (session_mem w session))) \<le> sint stepIndex
         then (Inl (InvalidStepNumber reviseStep), w)
         else
           (let t = thought_ptrs w (Thoughts (session_mem w session)) ! nat (sint stepIndex);
                w1 = w\<lparr>thought_mem := (thought_mem w)
                       (t := (thought_mem w t)\<lparr>Content := ct_Thought args\<rparr>)\<rparr>;
                w2 = w1\<lparr>thought_mem := (thought_mem w1)
                        (t := (thought_mem w1 t)\<lparr>Revised := True\<rparr>)\<rparr>;
                (now, w3) = time_Now w2;
                w4 = w3\<lparr>session_mem := (session_mem w3)
                        (session := (session_mem w3 session)\<lparr>LastActivity := now\<rparr>)\<rparr>
            in (Inr (session, ()), w4)))"

text \<open>The closure of the branching branch; it assigns \<^verbatim>\<open>branchID\<close> and
  \<^verbatim>\<open>branchSession\<close>.\<close>

definition branchFunc ::
  "ContinueThinkingArgs \<Rightarrow> addr \<Rightarrow> world \<Rightarrow> (error + addr \<times> string \<times> addr) \<times> world"
where
  "branchFunc args session w =
     (let branchID = ct_SessionID args @ ''_branch_''
            @ format_d (of_nat (sl_len (Branches (session_mem w session))) + 1);
          (bs, w1) = append_string (Branches (session_mem w session)) branchID w;
          w2 = w1\<lparr>session_mem := (session_mem w1)
                  (session := (session_mem w1 session)\<lparr>Branches := bs\<rparr>)\<rparr>;
          (now, w3) = time_Now w2;
          w4 = w3\<lparr>session_mem := (session_mem w3)
                  (session := (session_mem w3 session)\<lparr>LastActivity := now\<rparr>)\<rparr>;
          (thoughtsCopy, w5) = deepCopyThoughts (Thoughts (session_mem w4 session)) w4;
          (created, w6) = time_Now w5;
          (lastActivity, w7) = time_Now w6;
          (branchSession, w8) = new_session
             \<lparr>ID = branchID,
              Problem = Problem (session_mem w7 session) @ '' (Alternative branch)'',
              Thoughts = thoughtsCopy,
              CurrentThought = of_nat (sl_len (Thoughts (session_mem w7 session))),
              EstimatedTotal = EstimatedTotal (session_mem w7 session),
              Status = ''active'', SessionCreated = created, LastActivity = lastActivity,
              Branches = nil_slice, Version = 0\<rparr> w7
      in (Inr (session, branchID, branchSession), w8))"

text \<open>The closure that adds a thought; it assigns \<^verbatim>\<open>progress\<close> and \<^verbatim>\<open>statusMsg\<close>
  (\<^verbatim>\<open>thoughtID\<close> is not read after the call).\<close>

definition completed_mark :: string where
  "completed_mark = [CHR 0xC3, CHR 0xA2, CHR 0xC5, CHR 0x93, CHR 0xE2, CHR 0x80, CHR 0x9C]"

definition appendFunc ::
  "ContinueThinkingArgs \<Rightarrow> addr \<Rightarrow> world \<Rightarrow> (error + addr \<times> string \<times> string) \<times> world"
where
  "appendFunc args session w =
     (let thoughtID = of_nat (sl_len (Thoughts (session_mem w session))) + 1;
          (created, w1) = time_Now w;
          (thought, w2) = new_thought
             \<lparr>Index = thoughtID, Content = ct_Thought args, Created = created,
              Revised = False, ParentIndex = 0\<rparr> w1;
          (ts, w3) = append_thought (Thoughts (session_mem w2 session)) thought w2;
          w4 = w3\<lparr>session_mem := (session_mem w3)
                  (session := (session_mem w3 session)\<lparr>Thoughts := ts\<rparr>)\<rparr>;
          w5 = w4\<lparr>session_mem := (session_mem w4)
                  (session := (session_mem w4 session)\<lparr>CurrentThought := thoughtID\<rparr>)\<rparr>;
          (now, w6) = time_Now w5;
          w7 = w6\<lparr>session_mem := (session_mem w6)
                  (session := (session_mem w6 session)\<lparr>LastActivity := now\<rparr>)\<rparr>;
          w8 = (if 0 < sint (ct_EstimatedTotal args)
                then w7\<lparr>session_mem := (session_mem w7)
                       (session := (session_mem w7 session)
                          \<lparr>EstimatedTotal := ct_EstimatedTotal args\<rparr>)\<rparr>
                else w7);
          w9 = (if ct_NextNeeded args = Some False
                then w8\<lparr>session_mem := (session_mem w8)
                       (session := (session_mem w8 session)\<lparr>Status := ''completed''\<rparr>)\<rparr>
                else w8);
          progress = ''Step '' @ format_d thoughtID
            @ (if 0 < sint (EstimatedTotal (session_mem w9 session))
               then '' of ~'' @ format_d (EstimatedTotal (session_mem w9 session))
               else []);
          statusMsg =
            (if Status (session_mem w9 session) = ''completed''
             then newline @ completed_mark @ '' Thinking process completed!''
             else newline @ ''Ready for next thought...'')
      in (Inr (session, progress, statusMsg), w9))"

text \<open>\<^verbatim>\<open>ContinueThinking\<close>: revision first, then branching, then a new thought.\<close>

definition ContinueThinking ::
  "ContinueThinkingArgs \<Rightarrow> world \<Rightarrow> ((error + string) \<times> world) option"
where
  "ContinueThinking args w =
     (case ct_ReviseStep args of
        Some reviseStep \<Rightarrow>
          (case CompareAndSwap (ct_SessionID args) (reviseFunc args reviseStep) w of
             None \<Rightarrow> None
           | Some (Inl err, w1) \<Rightarrow> Some (Inl err, w1)
           | Some (Inr _, w1) \<Rightarrow>
               Some (Inr (''Revised step '' @ format_d reviseStep @ '' in session '' @ quote
                          @ ct_SessionID args @ quote @ '':'' @ newline @ ct_Thought args), w1))
      | None \<Rightarrow>
          if ct_CreateBranch args then
            (case CompareAndSwap (ct_SessionID args) (branchFunc args) w of
               None \<Rightarrow> None
             | Some (Inl err, w1) \<Rightarrow> Some (Inl err, w1)
             | Some (Inr (branchID, branchSession), w1) \<Rightarrow>
                 (let w2 = SetSession branchSession w1
                  in Some (Inr (''Created branch '' @ quote @ branchID @ quote
                                @ '' from session '' @ quote @ ct_SessionID args @ quote
                                @ ''. You can now continue thinking in either session.''), w2)))
          else
            (case CompareAndSwap (ct_SessionID args) (appendFunc args) w of
               None \<Rightarrow> None
             | Some (Inl err, w1) \<Rightarrow> Some (Inl err, w1)
             | Some (Inr (progress, statusMsg), w1) \<Rightarrow>
                 Some (Inr (''Session '' @ quote @ ct_SessionID args @ quote @ '' - ''
                            @ progress @ '':'' @ newline @ ct_Thought args @ statusMsg), w1)))"

subsection \<open>Memory discipline\<close>

text \<open>
  The predicates the proofs are stated with. \<open>agree_below n w w'\<close>: every object at
  an address below \<open>n\<close> is the same in both states. \<open>heap_only w w'\<close>: the step
  from \<open>w\<close> to \<open>w'\<close> only allocated or wrote objects. \<open>cells_in lo hi w p\<close>: the
  session object at \<open>p\<close> is well formed (no nil pointer, lengths within capacities,
  capacities within the arrays, no thought object twice), and the object, its arrays
  with room in them and its thoughts lie at addresses from \<open>lo\<close> up to, not including,
  \<open>hi\<close>. \<open>wf_world\<close>: every stored session is well formed and allocated.
  \<open>confined f\<close>: the closure \<open>f\<close>, given a session whose cells start at the
  session's own address, writes nowhere below that address, leaves the store's map
  alone and returns a session that is again well formed.
\<close>

definition agree_below :: "addr \<Rightarrow> world \<Rightarrow> world \<Rightarrow> bool" where
  "agree_below n w w' \<longleftrightarrow>
     (\<forall>a<n. session_mem w' a = session_mem w a \<and> thought_mem w' a = thought_mem w a
        \<and> thought_arrays w' a = thought_arrays w a \<and> string_arrays w' a = string_arrays w a)"

definition heap_only :: "world \<Rightarrow> world \<Rightarrow> bool" where
  "heap_only w w' \<longleftrightarrow>
     sessions w' = sessions w \<and> clock w' = clock w \<and> ticks w' = ticks w
     \<and> rand_source w' = rand_source w \<and> rand_count w' = rand_count w
     \<and> grow_policy w' = grow_policy w \<and> next_addr w \<le> next_addr w'"

definition slice_ok :: "addr \<Rightarrow> addr \<Rightarrow> slice \<Rightarrow> nat \<Rightarrow> bool" where
  "slice_ok lo hi s alen \<longleftrightarrow>
     sl_len s \<le> sl_cap s \<and> sl_cap s \<le> alen \<and> sl_array s < hi
     \<and> (sl_cap s = 0 \<or> (lo \<le> sl_array s \<and> 0 < sl_array s))"

definition cells_in :: "addr \<Rightarrow> addr \<Rightarrow> world \<Rightarrow> addr \<Rightarrow> bool" where
  "cells_in lo hi w p \<longleftrightarrow>
     lo \<le> p \<and> 0 < p \<and> p < hi
     \<and> slice_ok lo hi (Thoughts (session_mem w p))
          (length (thought_arrays w (sl_array (Thoughts (session_mem w p)))))
     \<and> (\<forall>t\<in>set (thought_ptrs w (Thoughts (session_mem w p))). lo \<le> t \<and> 0 < t \<and> t < hi)
     \<and> distinct (thought_ptrs w (Thoughts (session_mem w p)))
     \<and> slice_ok lo hi (Branches (session_mem w p))
          (length (string_arrays w (sl_array (Branches (session_mem w p)))))"

definition wf_world :: "world \<Rightarrow> bool" where
  "wf_world w \<longleftrightarrow>
     0 < next_addr w \<and> (\<forall>sid p. sessions w sid = Some p \<longrightarrow> cells_in 0 (next_addr w) w p)"

definition confined :: "(addr \<Rightarrow> world \<Rightarrow> (error + addr \<times> 'r) \<times> world) \<Rightarrow> bool" where
  "confined f \<longleftrightarrow>
     (\<forall>q w res w'. cells_in q (next_addr w) w q \<longrightarrow> f q w = (res, w') \<longrightarrow>
        agree_below q w w' \<and> sessions w' = sessions w \<and> next_addr w \<le> next_addr w'
        \<and> (\<forall>u r. res = Inr (u, r) \<longrightarrow> cells_in q (next_addr w') w' u))"

text \<open>
  A concrete state for the examples: the process right after \<^verbatim>\<open>NewSessionStore()\<close>, with
  nothing allocated, a clock that starts at 1000 and a runtime that doubles capacities.
\<close>

definition zero_session :: session_obj where
  "zero_session = \<lparr>ID = [], Problem = [], Thoughts = nil_slice, CurrentThought = 0,
     EstimatedTotal = 0, Status = [], SessionCreated = 0, LastActivity = 0,
     Branches = nil_slice, Version = 0\<rparr>"

definition zero_thought :: Thought where
  "zero_thought = \<lparr>Index = 0, Content = [], Created = 0, Revised = False, ParentIndex = 0\<rparr>"

definition initial_world :: world where
  "initial_world =
     \<lparr>sessions = Map.empty, session_mem = (\<lambda>_. zero_session),
      thought_mem = (\<lambda>_. zero_thought), thought_arrays = (\<lambda>_. []),
      string_arrays = (\<lambda>_. []), next_addr = 1, clock = (\<lambda>n. 1000 + n), ticks = 0,
      rand_source = (\<lambda>n. ''RANDOMTEXT'' @ format_nat n), rand_count = 0,
      grow_policy = (\<lambda>old n. 2 * old)\<rparr>"

text \<open>The id \<^verbatim>\<open>StartThinking\<close> registers the session under.\<close>

definition start_id :: "StartThinkingArgs \<Rightarrow> world \<Rightarrow> string" where
  "start_id args w =
     (if st_SessionID args = [] then rand_source w (rand_count w) else st_SessionID args)"

text \<open>
  A second concrete state: the session \<^verbatim>\<open>s\<close> with the two thoughts \<^verbatim>\<open>a\<close> and \<^verbatim>\<open>b\<close>,
  no branches and version 2.
\<close>

definition example_world :: world where
  "example_world =
     \<lparr>sessions = [''s'' \<mapsto> 1],
      session_mem = (\<lambda>_. zero_session)
        (1 := \<lparr>ID = ''s'', Problem = ''plan a trip'',
               Thoughts = \<lparr>sl_array = 2, sl_len = 2, sl_cap = 2\<rparr>, CurrentThought = 2,
               EstimatedTotal = 3, Status = ''active'', SessionCreated = 1000,
               LastActivity = 1005, Branches = nil_slice, Version = 2\<rparr>),
      thought_mem = (\<lambda>_. zero_thought)
        (3 := \<lparr>Index = 1, Content = ''a'', Created = 1002, Revised = False, ParentIndex = 0\<rparr>,
         4 := \<lparr>Index = 2, Content = ''b'', Created = 1004, Revised = False, ParentIndex = 0\<rparr>),
      thought_arrays = (\<lambda>_. [])(2 := [3, 4]),
      string_arrays = (\<lambda>_. []), next_addr = 5, clock = (\<lambda>n. 1000 + n), ticks = 6,
      rand_source = (\<lambda>n. ''RANDOMTEXT'' @ format_nat n), rand_count = 0,
      grow_policy = (\<lambda>old n. 2 * old)\<rparr>"

text \<open>The arguments of a call that revises a step.\<close>

definition revise_args :: "string \<Rightarrow> go_int \<Rightarrow> string \<Rightarrow> ContinueThinkingArgs" where
  "revise_args sid stepNumber t =
     \<lparr>ct_SessionID = sid, ct_Thought = t, ct_NextNeeded = None,
      ct_ReviseStep = Some stepNumber, ct_CreateBranch = False, ct_EstimatedTotal = 0\<rparr>"

text \<open>The arguments of a call that adds a thought.\<close>

definition append_args ::
  "string \<Rightarrow> string \<Rightarrow> bool option \<Rightarrow> go_int \<Rightarrow> ContinueThinkingArgs" where
  "append_args sid t nextNeeded estimatedTotal =
     \<lparr>ct_SessionID = sid, ct_Thought = t, ct_NextNeeded = nextNeeded,
      ct_ReviseStep = None, ct_CreateBranch = False, ct_EstimatedTotal = estimatedTotal\<rparr>"

text \<open>
  What a caller can do with a pointer \<open>q\<close> to a session. \<open>set_Status q v\<close> is the
  assignment \<^verbatim>\<open>q.Status = v\<close>. \<open>mutates_only q w w'\<close> is any change of the state that, among
  the objects \<open>w\<close> holds, writes only to the session object at \<open>q\<close>, to the thought objects
  its slice of thoughts points to, and to the two backing arrays of its slices when they
  have any room; allocating new objects is not restricted, and the store's map is not
  touched.
\<close>

definition set_Status :: "addr \<Rightarrow> string \<Rightarrow> world \<Rightarrow> world" where
  "set_Status q v w = w\<lparr>session_mem := (session_mem w)(q := (session_mem w q)\<lparr>Status := v\<rparr>)\<rparr>"

definition mutates_only :: "addr \<Rightarrow> world \<Rightarrow> world \<Rightarrow> bool" where
  "mutates_only q w w' \<longleftrightarrow>
     sessions w' = sessions w \<and> next_addr w \<le> next_addr w'
     \<and> (\<forall>a<next_addr w.
          (a \<noteq> q \<longrightarrow> session_mem w' a = session_mem w a)
          \<and> (a \<notin> set (thought_ptrs w (Thoughts (session_mem w q)))
               \<longrightarrow> thought_mem w' a = thought_mem w a)
          \<and> (\<not> (a = sl_array (Thoughts (session_mem w q))
                  \<and> 0 < sl_cap (Thoughts (session_mem w q)))
               \<longrightarrow> thought_arrays w' a = thought_arrays w a)
          \<and> (\<not> (a = sl_array (Branches (session_mem w q))
                  \<and> 0 < sl_cap (Branches (session_mem w q)))
               \<longrightarrow> string_arrays w' a = string_arrays w a))"

text \<open>
  The states the server can be in: it starts with an empty store, and every call of a
  handler runs to its end before the next (the handlers that only read take a snapshot).
\<close>

inductive reachable :: "world \<Rightarrow> bool" where
  init: "sessions w = Map.empty \<Longrightarrow> 0 < next_addr w \<Longrightarrow> reachable w"
| start: "reachable w \<Longrightarrow> StartThinking args w = (r, w') \<Longrightarrow> reachable w'"
| continue: "reachable w \<Longrightarrow> ContinueThinking cargs w = Some (r', w') \<Longrightarrow> reachable w'"
| snapshot: "reachable w \<Longrightarrow> SessionSnapshot sid w = (q, w') \<Longrightarrow> reachable w'"

text \<open>What holds of every stored session in every such state.\<close>

definition session_ok :: "string \<Rightarrow> session_view \<Rightarrow> bool" where
  "session_ok sid v \<longleftrightarrow>
     ID v = sid \<and> (\<forall>i<length (Thoughts v). Index (Thoughts v ! i) = of_nat i + 1)"

definition store_inv :: "world \<Rightarrow> bool" where
  "store_inv w \<longleftrightarrow>
     wf_world w \<and> (\<forall>sid p. sessions w sid = Some p \<longrightarrow> session_ok sid (view w p))"

subsection \<open>Concurrent calls\<close>

text \<open>
  Several calls of \<^verbatim>\<open>ContinueThinking\<close> that revise a step or add a
  thought run at the same time, each in its own goroutine, each inside the loop of
  \<^verbatim>\<open>CompareAndSwap\<close> (lines 137-174). The mutex makes each of the two locked regions of
  the loop body one step: lines 140-149 (look the session up, copy it, remember its
  version) under the read lock, and lines 158-171 (look the session up again, compare the
  versions, set the new version and store the pointer) under the write lock. The closure
  (lines 152-155) runs between them without the lock, on the copy that only its goroutine
  holds, and is taken as one step as well. A goroutine is therefore in one of five places:
  \<open>Ready\<close> at the top of the loop, \<open>Copied\<close> after the first region with the copy and
  \<^verbatim>\<open>oldVersion\<close>, \<open>Updated\<close> after the closure returned a session, \<open>Succeeded\<close> after
  \<^verbatim>\<open>return nil\<close>, with the version it had read (its baseline), or \<open>Failed\<close> after
  returning an error. \<open>thread_step ops i\<close> is the next step of goroutine \<open>i\<close>, which runs the
  call with arguments \<open>ops ! i\<close>; a schedule is the list of goroutines in the order in which
  they take their steps, and \<open>run\<close> takes the steps of a schedule one after the other.
  \<open>updateFunc_of\<close> is the closure of a call that revises (\<^verbatim>\<open>ReviseStep\<close> set) or adds a
  thought, without the variables it captures for the reply.
\<close>

datatype phase =
  Ready | Copied addr go_int | Updated addr go_int | Succeeded go_int | Failed error

definition updateFunc_of ::
  "ContinueThinkingArgs \<Rightarrow> addr \<Rightarrow> world \<Rightarrow> (error + addr) \<times> world" where
  "updateFunc_of args session w =
     (case ct_ReviseStep args of
        Some reviseStep \<Rightarrow>
          (case reviseFunc args reviseStep session w of
             (Inl err, w') \<Rightarrow> (Inl err, w')
           | (Inr (updated, _), w') \<Rightarrow> (Inr updated, w'))
      | None \<Rightarrow>
          (case appendFunc args session w of
             (Inl err, w') \<Rightarrow> (Inl err, w')
           | (Inr (updated, _), w') \<Rightarrow> (Inr updated, w')))"

definition thread_step ::
  "ContinueThinkingArgs list \<Rightarrow> nat \<Rightarrow> world \<times> phase list \<Rightarrow> world \<times> phase list" where
  "thread_step ops i cfg =
     (let (w, ps) = cfg; sessionID = ct_SessionID (ops ! i)
      in if i < length ps \<and> i < length ops then
           (case ps ! i of
              Ready \<Rightarrow>
                (case sessions w sessionID of
                   None \<Rightarrow> (w, ps[i := Failed (NotFound sessionID)])
                 | Some current \<Rightarrow>
                     (let (sessionCopy, w1) = clone current w;
                          oldVersion = Version (session_mem w1 current)
                      in (w1, ps[i := Copied sessionCopy oldVersion])))
            | Copied sessionCopy oldVersion \<Rightarrow>
                (case updateFunc_of (ops ! i) sessionCopy w of
                   (Inl err, w2) \<Rightarrow> (w2, ps[i := Failed err])
                 | (Inr updated, w2) \<Rightarrow> (w2, ps[i := Updated updated oldVersion]))
            | Updated updated oldVersion \<Rightarrow>
                (case sessions w sessionID of
                   None \<Rightarrow> (w, ps[i := Failed (NotFound sessionID)])
                 | Some current \<Rightarrow>
                     if Version (session_mem w current) \<noteq> oldVersion
                     then (w, ps[i := Ready])
                     else
                       (let w3 = w\<lparr>session_mem := (session_mem w)
                                   (updated := (session_mem w updated)
                                      \<lparr>Version := oldVersion + 1\<rparr>)\<rparr>;
                            w4 = w3\<lparr>sessions := (sessions w3)(sessionID \<mapsto> updated)\<rparr>
                        in (w4, ps[i := Succeeded oldVersion])))
            | Succeeded _ \<Rightarrow> (w, ps)
            | Failed _ \<Rightarrow> (w, ps))
         else (w, ps))"

definition run ::
  "ContinueThinkingArgs list \<Rightarrow> nat list \<Rightarrow> world \<times> phase list \<Rightarrow> world \<times> phase list" where
  "run ops schedule cfg = fold (thread_step ops) schedule cfg"


fun copy_of :: "phase \<Rightarrow> addr option" where
  "copy_of (Copied c _) = Some c"
| "copy_of (Updated c _) = Some c"
| "copy_of _ = None"




section \<open>Lemmas\<close>

lemma agree_below_refl: "agree_below n w w"
  by (simp add: agree_below_def)

lemma agree_below_trans:
  "agree_below n w w1 \<Longrightarrow> agree_below n w1 w2 \<Longrightarrow> agree_below n w w2"
  by (simp add: agree_below_def)

lemma agree_below_mono: "agree_below n w w' \<Longrightarrow> m \<le> n \<Longrightarrow> agree_below m w w'"
  by (simp add: agree_below_def)

lemma heap_only_refl: "heap_only w w"
  by (simp add: heap_only_def)

lemma heap_only_trans: "heap_only w w1 \<Longrightarrow> heap_only w1 w2 \<Longrightarrow> heap_only w w2"
  by (simp add: heap_only_def)

lemma new_thought_eq:
  "new_thought t w =
     (next_addr w, w\<lparr>next_addr := Suc (next_addr w), thought_mem := (thought_mem w)(next_addr w := t)\<rparr>)"
  by (simp add: new_thought_def alloc_def)

lemma new_session_eq:
  "new_session s w =
     (next_addr w, w\<lparr>next_addr := Suc (next_addr w), session_mem := (session_mem w)(next_addr w := s)\<rparr>)"
  by (simp add: new_session_def alloc_def)

lemma copy_loop_heap_only: "heap_only w (copy_thoughts_loop a i ts w)"
proof (induction ts arbitrary: i w)
  case Nil
  show ?case by (simp add: heap_only_refl)
next
  case (Cons t ts)
  let ?w2 = "w\<lparr>next_addr := Suc (next_addr w), thought_mem := (thought_mem w)(next_addr w := thought_mem w t),
      thought_arrays := (thought_arrays w)(a := (thought_arrays w a)[i := next_addr w])\<rparr>"
  have "heap_only w ?w2" by (simp add: heap_only_def)
  moreover have "heap_only ?w2 (copy_thoughts_loop a (Suc i) ts ?w2)" by (rule Cons.IH)
  ultimately show ?case
    by (simp add: new_thought_eq heap_only_def)
qed

lemma copy_loop_next: "next_addr (copy_thoughts_loop a i ts w) = next_addr w + length ts"
  by (induction ts arbitrary: i w) (simp_all add: new_thought_eq)

lemma copy_loop_session_mem: "session_mem (copy_thoughts_loop a i ts w) = session_mem w"
  by (induction ts arbitrary: i w) (simp_all add: new_thought_eq)

lemma copy_loop_string_arrays: "string_arrays (copy_thoughts_loop a i ts w) = string_arrays w"
  by (induction ts arbitrary: i w) (simp_all add: new_thought_eq)

lemma copy_loop_arrays_other:
  "b \<noteq> a \<Longrightarrow> thought_arrays (copy_thoughts_loop a i ts w) b = thought_arrays w b"
  by (induction ts arbitrary: i w) (simp_all add: new_thought_eq)

lemma copy_loop_array_length:
  "length (thought_arrays (copy_thoughts_loop a i ts w) a) = length (thought_arrays w a)"
  by (induction ts arbitrary: i w) (simp_all add: new_thought_eq)

lemma copy_loop_array_nth:
  "i + length ts \<le> length (thought_arrays w a) \<Longrightarrow> j < length (thought_arrays w a) \<Longrightarrow>
   thought_arrays (copy_thoughts_loop a i ts w) a ! j =
     (if i \<le> j \<and> j < i + length ts then next_addr w + (j - i) else thought_arrays w a ! j)"
proof (induction ts arbitrary: i w)
  case Nil
  then show ?case by simp
next
  case (Cons t ts)
  then show ?case
    by (auto simp add: new_thought_eq nth_list_update)
qed

lemma copy_loop_mem_old:
  "p < next_addr w \<Longrightarrow> thought_mem (copy_thoughts_loop a i ts w) p = thought_mem w p"
  by (induction ts arbitrary: i w) (simp_all add: new_thought_eq)

lemma copy_loop_mem_new:
  "\<forall>t\<in>set ts. t < next_addr w \<Longrightarrow> k < length ts \<Longrightarrow>
   thought_mem (copy_thoughts_loop a i ts w) (next_addr w + k) = thought_mem w (ts ! k)"
proof (induction ts arbitrary: i w k)
  case Nil
  then show ?case by simp
next
  case (Cons t ts)
  show ?case
  proof (cases k)
    case 0
    then show ?thesis
      by (simp add: new_thought_eq copy_loop_mem_old)
  next
    case (Suc k')
    let ?w2 = "w\<lparr>next_addr := Suc (next_addr w), thought_mem := (thought_mem w)(next_addr w := thought_mem w t),
      thought_arrays := (thought_arrays w)(a := (thought_arrays w a)[i := next_addr w])\<rparr>"
    have k': "k' < length ts" using Cons.prems Suc by simp
    have lt: "\<forall>t\<in>set ts. t < next_addr w" using Cons.prems by simp
    then have "\<forall>t\<in>set ts. t < next_addr ?w2" by auto
    from Cons.IH[where i="Suc i", OF this k']
    have "thought_mem (copy_thoughts_loop a (Suc i) ts ?w2) (next_addr ?w2 + k') = thought_mem ?w2 (ts ! k')" .
    moreover have "ts ! k' < next_addr w" using lt k' by simp
    ultimately show ?thesis using Suc
      by (simp add: new_thought_eq)
  qed
qed

lemma deepCopyThoughts_spec:
  assumes len: "sl_len s \<le> length (thought_arrays w (sl_array s))"
    and old: "\<forall>t\<in>set (thought_ptrs w s). t < next_addr w"
    and run: "deepCopyThoughts s w = (c, w')"
  shows "c = \<lparr>sl_array = next_addr w, sl_len = sl_len s, sl_cap = sl_len s\<rparr>"
    and "next_addr w' = Suc (next_addr w + sl_len s)"
    and "thought_arrays w' (next_addr w) = [Suc (next_addr w) ..< Suc (next_addr w + sl_len s)]"
    and "thoughts_at w' c = thoughts_at w s"
    and "agree_below (next_addr w) w w'"
    and "heap_only w w'"
    and "session_mem w' = session_mem w"
    and "string_arrays w' = string_arrays w"
proof -
  let ?n = "next_addr w"
  let ?ts = "thought_ptrs w s"
  let ?w1 = "w\<lparr>next_addr := Suc ?n, thought_arrays := (thought_arrays w)(?n := replicate (sl_len s) 0)\<rparr>"
  have lts: "length ?ts = sl_len s"
    using len by (simp add: thought_ptrs_def)
  have c: "c = \<lparr>sl_array = ?n, sl_len = sl_len s, sl_cap = sl_len s\<rparr>"
    and w': "w' = copy_thoughts_loop ?n 0 ?ts ?w1"
    using run by (auto simp add: deepCopyThoughts_def make_thoughts_def alloc_def Let_def)
  show "c = \<lparr>sl_array = ?n, sl_len = sl_len s, sl_cap = sl_len s\<rparr>" by (rule c)
  show nx: "next_addr w' = Suc (?n + sl_len s)"
    by (simp add: w' copy_loop_next lts)
  have old1: "\<forall>t\<in>set ?ts. t < next_addr ?w1" using old by auto
  show arr: "thought_arrays w' ?n = [Suc ?n ..< Suc (?n + sl_len s)]"
  proof (rule nth_equalityI)
    show "length (thought_arrays w' ?n) = length [Suc ?n ..< Suc (?n + sl_len s)]"
      by (simp add: w' copy_loop_array_length)
  next
    fix j assume "j < length (thought_arrays w' ?n)"
    then have j: "j < sl_len s" by (simp add: w' copy_loop_array_length)
    have "thought_arrays (copy_thoughts_loop ?n 0 ?ts ?w1) ?n ! j =
          (if 0 \<le> j \<and> j < 0 + length ?ts then next_addr ?w1 + (j - 0) else thought_arrays ?w1 ?n ! j)"
      by (rule copy_loop_array_nth) (simp_all add: lts j)
    then show "thought_arrays w' ?n ! j = [Suc ?n ..< Suc (?n + sl_len s)] ! j"
      using j by (simp add: w' lts del: upt_Suc)
  qed
  have ptrs: "thought_ptrs w' c = [Suc ?n ..< Suc (?n + sl_len s)]"
    by (simp add: thought_ptrs_def c arr del: upt_Suc)
  show "thoughts_at w' c = thoughts_at w s"
  proof (rule nth_equalityI)
    show "length (thoughts_at w' c) = length (thoughts_at w s)"
      by (simp add: thoughts_at_def ptrs lts del: upt_Suc)
  next
    fix j assume "j < length (thoughts_at w' c)"
    then have j: "j < sl_len s"
      by (simp add: thoughts_at_def ptrs del: upt_Suc)
    have "thought_mem (copy_thoughts_loop ?n 0 ?ts ?w1) (next_addr ?w1 + j) = thought_mem ?w1 (?ts ! j)"
      by (rule copy_loop_mem_new[OF old1]) (simp add: lts j)
    then have "thought_mem w' (Suc (?n + j)) = thought_mem w (?ts ! j)"
      by (simp add: w')
    moreover have "thoughts_at w' c ! j = thought_mem w' (Suc (?n + j))"
      using j by (simp add: thoughts_at_def ptrs del: upt_Suc)
    moreover have "thoughts_at w s ! j = thought_mem w (?ts ! j)"
      using j by (simp add: thoughts_at_def lts)
    ultimately show "thoughts_at w' c ! j = thoughts_at w s ! j" by simp
  qed
  show "agree_below ?n w w'"
    by (simp add: agree_below_def w' copy_loop_session_mem copy_loop_string_arrays
        copy_loop_arrays_other copy_loop_mem_old)
  have "heap_only w ?w1" by (simp add: heap_only_def)
  then show "heap_only w w'"
    unfolding w' by (rule heap_only_trans) (rule copy_loop_heap_only)
  show "session_mem w' = session_mem w" by (simp add: w' copy_loop_session_mem)
  show "string_arrays w' = string_arrays w" by (simp add: w' copy_loop_string_arrays)
qed

lemma gslice_Clone_spec:
  assumes len: "slice_ok 0 hi s (length (string_arrays w (sl_array s)))"
    and pos: "0 < next_addr w"
    and run: "gslice_Clone s w = (c, w')"
  shows "branch_ids w' c = branch_ids w s"
    and "slice_ok (next_addr w) (next_addr w') c (length (string_arrays w' (sl_array c)))"
    and "agree_below (next_addr w) w w'"
    and "heap_only w w'"
    and "session_mem w' = session_mem w"
    and "thought_mem w' = thought_mem w"
    and "thought_arrays w' = thought_arrays w"
  using assms
  by (auto simp add: gslice_Clone_def alloc_def Let_def nil_slice_def branch_ids_def
      slice_ok_def agree_below_def heap_only_def split: if_splits)

lemma clone_spec:
  assumes wf: "cells_in 0 (next_addr w) w p"
    and run: "clone p w = (q, w')"
  shows "q = next_addr w"
    and "view w' q = view w p"
    and "cells_in (next_addr w) (next_addr w') w' q"
    and "agree_below (next_addr w) w w'"
    and "heap_only w w'"
proof -
  let ?n = "next_addr w"
  let ?S = "session_mem w p"
  let ?w1 = "w\<lparr>next_addr := Suc ?n, session_mem := (session_mem w)(?n := ?S)\<rparr>"
  obtain ts w2 where dc: "deepCopyThoughts (Thoughts ?S) ?w1 = (ts, w2)"
    by (cases "deepCopyThoughts (Thoughts ?S) ?w1") auto
  let ?w3 = "w2\<lparr>session_mem := (session_mem w2)(?n := (session_mem w2 ?n)\<lparr>Thoughts := ts\<rparr>)\<rparr>"
  obtain bs w4 where gc: "gslice_Clone (Branches ?S) ?w3 = (bs, w4)"
    by (cases "gslice_Clone (Branches ?S) ?w3") auto
  let ?w5 = "w4\<lparr>session_mem := (session_mem w4)(?n := (session_mem w4 ?n)\<lparr>Branches := bs\<rparr>)\<rparr>"
  have p: "p < ?n" "0 < p" using wf by (simp_all add: cells_in_def)
  have tlen: "sl_len (Thoughts ?S) \<le> length (thought_arrays ?w1 (sl_array (Thoughts ?S)))"
    using wf by (simp add: cells_in_def slice_ok_def)
  have told: "\<forall>t\<in>set (thought_ptrs ?w1 (Thoughts ?S)). t < next_addr ?w1"
    using wf by (auto simp add: cells_in_def thought_ptrs_def)
  note d = deepCopyThoughts_spec[OF tlen told dc]
  have sm2: "session_mem w2 = (session_mem w)(?n := ?S)" using d(7) by simp
  have d1: "ts = \<lparr>sl_array = Suc ?n, sl_len = sl_len (Thoughts ?S), sl_cap = sl_len (Thoughts ?S)\<rparr>"
    using d(1) by simp
  have d3: "thought_arrays w2 (Suc ?n) = [Suc (Suc ?n) ..< Suc (Suc ?n + sl_len (Thoughts ?S))]"
    using d(3) by (simp del: upt_Suc)
  have sa2: "string_arrays w2 = string_arrays w" using d(8) by simp
  have blen: "slice_ok 0 ?n (Branches ?S) (length (string_arrays ?w3 (sl_array (Branches ?S))))"
    using wf by (simp add: cells_in_def sa2)
  have pos3: "0 < next_addr ?w3" using d(2) by simp
  note g = gslice_Clone_spec[OF blen pos3 gc]
  have cl: "clone p w = (?n, ?w5)"
    using p dc gc by (simp add: clone_def new_session_eq Let_def sm2)
  have "q = fst (clone p w)" "w' = snd (clone p w)" using run by simp_all
  then have res: "q = ?n" "w' = ?w5" unfolding cl by simp_all
  show "q = ?n" by (rule res)
  have sm5: "session_mem ?w5 ?n = ?S\<lparr>Thoughts := ts, Branches := bs\<rparr>"
    by (simp add: g(5) sm2)
  have ta5: "thought_arrays ?w5 = thought_arrays w2" by (simp add: g(7))
  have tm5: "thought_mem ?w5 = thought_mem w2" by (simp add: g(6))
  have th: "thoughts_at ?w5 ts = thoughts_at w (Thoughts ?S)"
  proof -
    have "thoughts_at ?w5 ts = thoughts_at w2 ts"
      by (simp add: thoughts_at_def thought_ptrs_def g(6) g(7))
    also have "\<dots> = thoughts_at ?w1 (Thoughts ?S)" by (rule d(4))
    also have "\<dots> = thoughts_at w (Thoughts ?S)"
      by (simp add: thoughts_at_def thought_ptrs_def)
    finally show ?thesis .
  qed
  have br: "branch_ids ?w5 bs = branch_ids w (Branches ?S)"
  proof -
    have "branch_ids ?w5 bs = branch_ids w4 bs" by (simp add: branch_ids_def)
    also have "\<dots> = branch_ids ?w3 (Branches ?S)" by (rule g(1))
    also have "\<dots> = branch_ids w (Branches ?S)" by (simp add: branch_ids_def sa2)
    finally show ?thesis .
  qed
  show "view w' q = view w p"
    unfolding res view_def Let_def sm5 using th br by simp
  have n3: "next_addr ?w3 = Suc (Suc ?n + sl_len (Thoughts ?S))" using d(2) by simp
  have n5: "next_addr ?w3 \<le> next_addr ?w5" using g(4) by (simp add: heap_only_def)
  show "cells_in ?n (next_addr w') w' q"
  proof -
    have "slice_ok ?n (next_addr ?w5) ts (length (thought_arrays ?w5 (sl_array ts)))"
      using n5 n3 by (simp add: slice_ok_def d1 ta5 d3 del: upt_Suc)
    moreover have "\<forall>t\<in>set (thought_ptrs ?w5 ts). ?n \<le> t \<and> 0 < t \<and> t < next_addr ?w5"
      using n5 n3 by (auto simp add: thought_ptrs_def ta5 d1 d3 simp del: upt_Suc)
    moreover have "distinct (thought_ptrs ?w5 ts)"
      by (simp add: thought_ptrs_def ta5 d1 d3 del: upt_Suc)
    moreover have "slice_ok ?n (next_addr ?w5) bs (length (string_arrays ?w5 (sl_array bs)))"
      using g(2) n3 by (auto simp add: slice_ok_def)
    moreover have "0 < ?n" "?n < next_addr ?w5" using p n5 n3 by simp_all
    ultimately show ?thesis
      unfolding res cells_in_def sm5 by simp
  qed
  have "agree_below ?n w ?w1" by (simp add: agree_below_def)
  moreover have "agree_below ?n ?w1 w2" using d(5) by (simp add: agree_below_def)
  moreover have "agree_below ?n w2 ?w3" by (simp add: agree_below_def)
  moreover have "agree_below ?n ?w3 w4" using g(3) n3 by (simp add: agree_below_def)
  moreover have "agree_below ?n w4 ?w5" by (simp add: agree_below_def)
  ultimately show "agree_below ?n w w'"
    unfolding res by (blast intro: agree_below_trans)
  have "heap_only w ?w1" by (simp add: heap_only_def)
  moreover have "heap_only ?w1 w2" by (rule d(6))
  moreover have "heap_only w2 ?w3" by (simp add: heap_only_def)
  moreover have "heap_only ?w3 w4" by (rule g(4))
  moreover have "heap_only w4 ?w5" by (simp add: heap_only_def)
  ultimately show "heap_only w w'"
    unfolding res by (blast intro: heap_only_trans)
qed

lemma cells_in_mono:
  "cells_in lo hi w p \<Longrightarrow> lo' \<le> lo \<Longrightarrow> hi \<le> hi' \<Longrightarrow> cells_in lo' hi' w p"
  by (fastforce simp add: cells_in_def slice_ok_def)

lemma cells_in_agree:
  assumes c: "cells_in lo hi w p" and a: "agree_below hi w w'"
  shows "cells_in lo hi w' p" and "view w' p = view w p"
proof -
  let ?S = "session_mem w p"
  have sm: "session_mem w' p = ?S"
    using c a by (simp add: cells_in_def agree_below_def)
  have ta: "thought_arrays w' (sl_array (Thoughts ?S)) = thought_arrays w (sl_array (Thoughts ?S))"
    using c a by (simp add: cells_in_def slice_ok_def agree_below_def)
  have sa: "string_arrays w' (sl_array (Branches ?S)) = string_arrays w (sl_array (Branches ?S))"
    using c a by (simp add: cells_in_def slice_ok_def agree_below_def)
  have tp: "thought_ptrs w' (Thoughts ?S) = thought_ptrs w (Thoughts ?S)"
    by (simp add: thought_ptrs_def ta)
  have tm: "\<forall>t\<in>set (thought_ptrs w (Thoughts ?S)). thought_mem w' t = thought_mem w t"
    using c a by (simp add: cells_in_def agree_below_def)
  show "cells_in lo hi w' p"
    using c by (simp add: cells_in_def sm ta sa tp)
  have "thoughts_at w' (Thoughts ?S) = thoughts_at w (Thoughts ?S)"
    using tm by (simp add: thoughts_at_def tp)
  moreover have "branch_ids w' (Branches ?S) = branch_ids w (Branches ?S)"
    by (simp add: branch_ids_def sa)
  ultimately show "view w' p = view w p"
    by (simp add: view_def Let_def sm)
qed

lemma view_length_thoughts:
  "cells_in lo hi w p \<Longrightarrow> length (Thoughts (view w p)) = sl_len (Thoughts (session_mem w p))"
  by (simp add: view_def Let_def thoughts_at_def thought_ptrs_def cells_in_def slice_ok_def)

lemma view_length_branches:
  "cells_in lo hi w p \<Longrightarrow> length (Branches (view w p)) = sl_len (Branches (session_mem w p))"
  by (simp add: view_def Let_def branch_ids_def cells_in_def slice_ok_def)

lemma reviseFunc_invalid:
  assumes c: "cells_in q (next_addr w) w q"
    and bad: "sint (reviseStep - 1) < 0 \<or> int (length (Thoughts (view w q))) \<le> sint (reviseStep - 1)"
  shows "reviseFunc args reviseStep q w = (Inl (InvalidStepNumber reviseStep), w)"
  using bad by (auto simp add: reviseFunc_def Let_def view_length_thoughts[OF c])

lemma reviseFunc_valid:
  assumes c: "cells_in q (next_addr w) w q"
    and ok: "0 \<le> sint (reviseStep - 1)" "sint (reviseStep - 1) < int (length (Thoughts (view w q)))"
    and run: "reviseFunc args reviseStep q w = (res, w')"
  shows "res = Inr (q, ())"
    and "view w' q = (view w q)
           \<lparr>Thoughts := (Thoughts (view w q))
              [nat (sint (reviseStep - 1)) :=
                 (Thoughts (view w q) ! nat (sint (reviseStep - 1)))
                   \<lparr>Content := ct_Thought args, Revised := True\<rparr>],
            LastActivity := clock w (ticks w)\<rparr>"
    and "cells_in q (next_addr w') w' q"
    and "agree_below q w w'"
    and "sessions w' = sessions w"
    and "next_addr w' = next_addr w"
proof -
  let ?S = "session_mem w q"
  let ?i = "nat (sint (reviseStep - 1))"
  let ?ps = "thought_ptrs w (Thoughts ?S)"
  let ?t = "?ps ! ?i"
  let ?T = "(thought_mem w ?t)\<lparr>Content := ct_Thought args, Revised := True\<rparr>"
  let ?w4 = "w\<lparr>thought_mem := (thought_mem w)(?t := ?T), ticks := Suc (ticks w),
      session_mem := (session_mem w)(q := ?S\<lparr>LastActivity := clock w (ticks w)\<rparr>)\<rparr>"
  have len: "length (Thoughts (view w q)) = sl_len (Thoughts ?S)"
    by (rule view_length_thoughts[OF c])
  have lps: "length ?ps = sl_len (Thoughts ?S)"
    using c by (simp add: thought_ptrs_def cells_in_def slice_ok_def)
  have i: "?i < sl_len (Thoughts ?S)" using ok len by simp
  have r: "reviseFunc args reviseStep q w = (Inr (q, ()), ?w4)"
    using ok len by (simp add: reviseFunc_def Let_def time_Now_def)
  have "res = fst (reviseFunc args reviseStep q w)" "w' = snd (reviseFunc args reviseStep q w)"
    using run by simp_all
  then have res: "res = Inr (q, ())" "w' = ?w4" unfolding r by simp_all
  show "res = Inr (q, ())" by (rule res)
  have tin: "?t \<in> set ?ps" using i lps by simp
  then have tq: "q \<le> ?t" "?t < next_addr w" using c by (simp_all add: cells_in_def)
  have ps4: "thought_ptrs ?w4 (Thoughts ?S) = ?ps" by (simp add: thought_ptrs_def)
  have th: "thoughts_at ?w4 (Thoughts ?S) = (thoughts_at w (Thoughts ?S))[?i := ?T]"
  proof (rule nth_equalityI)
    show "length (thoughts_at ?w4 (Thoughts ?S)) = length ((thoughts_at w (Thoughts ?S))[?i := ?T])"
      by (simp add: thoughts_at_def ps4)
  next
    fix j assume "j < length (thoughts_at ?w4 (Thoughts ?S))"
    then have j: "j < length ?ps" by (simp add: thoughts_at_def ps4)
    have d: "distinct ?ps" using c by (simp add: cells_in_def)
    have "?ps ! j = ?t \<longleftrightarrow> j = ?i"
      using d j i lps by (simp add: nth_eq_iff_index_eq)
    then show "thoughts_at ?w4 (Thoughts ?S) ! j = (thoughts_at w (Thoughts ?S))[?i := ?T] ! j"
      using j by (auto simp add: thoughts_at_def ps4 nth_list_update)
  qed
  have nth: "thoughts_at w (Thoughts ?S) ! ?i = thought_mem w ?t"
    using i lps by (simp add: thoughts_at_def)
  show "view w' q = (view w q)
           \<lparr>Thoughts := (Thoughts (view w q))[?i := (Thoughts (view w q) ! ?i)
                   \<lparr>Content := ct_Thought args, Revised := True\<rparr>],
            LastActivity := clock w (ticks w)\<rparr>"
    unfolding res by (simp add: view_def Let_def th nth branch_ids_def)
  show "cells_in q (next_addr w') w' q"
    using c unfolding res by (simp add: cells_in_def ps4)
  show "agree_below q w w'"
    using tq unfolding res by (simp add: agree_below_def)
  show "sessions w' = sessions w" unfolding res by simp
  show "next_addr w' = next_addr w" unfolding res by simp
qed

lemma append_thought_spec:
  assumes ok: "slice_ok lo (next_addr w) s (length (thought_arrays w (sl_array s)))"
    and lo: "lo \<le> next_addr w" "0 < next_addr w"
    and run: "append_thought s x w = (s', w')"
  shows "thought_ptrs w' s' = thought_ptrs w s @ [x]"
    and "slice_ok lo (next_addr w') s' (length (thought_arrays w' (sl_array s')))"
    and "agree_below lo w w'"
    and "heap_only w w'"
    and "session_mem w' = session_mem w"
    and "thought_mem w' = thought_mem w"
    and "string_arrays w' = string_arrays w"
proof -
  show "thought_ptrs w' s' = thought_ptrs w s @ [x]"
    using ok run
    by (auto simp add: append_thought_def alloc_def Let_def thought_ptrs_def slice_ok_def
        take_Suc_conv_app_nth split: if_splits)
  show "slice_ok lo (next_addr w') s' (length (thought_arrays w' (sl_array s')))"
    using ok lo run
    by (auto simp add: append_thought_def alloc_def Let_def thought_ptrs_def slice_ok_def
        split: if_splits)
  show "agree_below lo w w'"
    using ok lo run
    by (auto simp add: append_thought_def alloc_def Let_def slice_ok_def agree_below_def
        split: if_splits)
  show "heap_only w w'" "session_mem w' = session_mem w" "thought_mem w' = thought_mem w"
    "string_arrays w' = string_arrays w"
    using run
    by (auto simp add: append_thought_def alloc_def Let_def heap_only_def split: if_splits)
qed

lemma append_string_spec:
  assumes ok: "slice_ok lo (next_addr w) s (length (string_arrays w (sl_array s)))"
    and lo: "lo \<le> next_addr w" "0 < next_addr w"
    and run: "append_string s x w = (s', w')"
  shows "branch_ids w' s' = branch_ids w s @ [x]"
    and "slice_ok lo (next_addr w') s' (length (string_arrays w' (sl_array s')))"
    and "agree_below lo w w'"
    and "heap_only w w'"
    and "session_mem w' = session_mem w"
    and "thought_mem w' = thought_mem w"
    and "thought_arrays w' = thought_arrays w"
proof -
  show "branch_ids w' s' = branch_ids w s @ [x]"
    using ok run
    by (auto simp add: append_string_def alloc_def Let_def branch_ids_def slice_ok_def
        take_Suc_conv_app_nth split: if_splits)
  show "slice_ok lo (next_addr w') s' (length (string_arrays w' (sl_array s')))"
    using ok lo run
    by (auto simp add: append_string_def alloc_def Let_def branch_ids_def slice_ok_def
        split: if_splits)
  show "agree_below lo w w'"
    using ok lo run
    by (auto simp add: append_string_def alloc_def Let_def slice_ok_def agree_below_def
        split: if_splits)
  show "heap_only w w'" "session_mem w' = session_mem w" "thought_mem w' = thought_mem w"
    "thought_arrays w' = thought_arrays w"
    using run
    by (auto simp add: append_string_def alloc_def Let_def heap_only_def split: if_splits)
qed

lemma appendFunc_spec:
  assumes c: "cells_in q (next_addr w) w q"
    and run: "appendFunc args q w = (res, w')"
  shows "\<exists>r. res = Inr (q, r)"
    and "view w' q = (view w q)
           \<lparr>Thoughts := Thoughts (view w q) @
              [\<lparr>Index = of_nat (length (Thoughts (view w q))) + 1, Content = ct_Thought args,
                Created = clock w (ticks w), Revised = False, ParentIndex = 0\<rparr>],
            CurrentThought := of_nat (length (Thoughts (view w q))) + 1,
            EstimatedTotal := (if 0 < sint (ct_EstimatedTotal args) then ct_EstimatedTotal args
                               else EstimatedTotal (view w q)),
            Status := (if ct_NextNeeded args = Some False then ''completed''
                       else Status (view w q)),
            LastActivity := clock w (Suc (ticks w))\<rparr>"
    and "cells_in q (next_addr w') w' q"
    and "agree_below q w w'"
    and "sessions w' = sessions w"
    and "next_addr w \<le> next_addr w'"
proof -
  let ?S = "session_mem w q"
  let ?n = "next_addr w"
  let ?tid = "of_nat (sl_len (Thoughts ?S)) + 1 :: go_int"
  let ?T = "\<lparr>Index = ?tid, Content = ct_Thought args, Created = clock w (ticks w),
             Revised = False, ParentIndex = 0\<rparr>"
  let ?w2 = "w\<lparr>ticks := Suc (ticks w), next_addr := Suc ?n,
               thought_mem := (thought_mem w)(?n := ?T)\<rparr>"
  obtain ts w3 where ap: "append_thought (Thoughts ?S) ?n ?w2 = (ts, w3)"
    by (cases "append_thought (Thoughts ?S) ?n ?w2") auto
  let ?S' = "?S\<lparr>Thoughts := ts, CurrentThought := ?tid,
      LastActivity := clock w (Suc (ticks w)),
      EstimatedTotal := (if 0 < sint (ct_EstimatedTotal args) then ct_EstimatedTotal args
                         else EstimatedTotal ?S),
      Status := (if ct_NextNeeded args = Some False then ''completed'' else Status ?S)\<rparr>"
  let ?w9 = "w3\<lparr>ticks := Suc (Suc (ticks w)), session_mem := (session_mem w)(q := ?S')\<rparr>"
  have q: "q < ?n" "0 < q" using c by (simp_all add: cells_in_def)
  have ok2: "slice_ok q (next_addr ?w2) (Thoughts ?S)
               (length (thought_arrays ?w2 (sl_array (Thoughts ?S))))"
    using c by (auto simp add: cells_in_def slice_ok_def)
  have lo2: "q \<le> next_addr ?w2" "0 < next_addr ?w2" using q by simp_all
  note a = append_thought_spec[OF ok2 lo2 ap]
  have h3: "sessions w3 = sessions w" "clock w3 = clock w" "ticks w3 = Suc (ticks w)"
    "Suc ?n \<le> next_addr w3"
    using a(4) by (simp_all add: heap_only_def)
  have sm3: "session_mem w3 = session_mem w" using a(5) by simp
  have tm3: "thought_mem w3 = (thought_mem w)(?n := ?T)" using a(6) by simp
  have sa3: "string_arrays w3 = string_arrays w" using a(7) by simp
  have r: "\<exists>r. appendFunc args q w = (Inr (q, r), ?w9)"
    using ap by (simp add: appendFunc_def Let_def time_Now_def new_thought_eq sm3 h3)
  then obtain r where r: "appendFunc args q w = (Inr (q, r), ?w9)" ..
  have "res = fst (appendFunc args q w)" "w' = snd (appendFunc args q w)"
    using run by simp_all
  then have res: "res = Inr (q, r)" "w' = ?w9" unfolding r by simp_all
  show "\<exists>r. res = Inr (q, r)" using res by blast
  have ps: "thought_ptrs ?w9 ts = thought_ptrs w (Thoughts ?S) @ [?n]"
    using a(1) by (simp add: thought_ptrs_def)
  have old: "\<forall>t\<in>set (thought_ptrs w (Thoughts ?S)). t < ?n"
    using c by (simp add: cells_in_def)
  have th: "thoughts_at ?w9 ts = thoughts_at w (Thoughts ?S) @ [?T]"
    using old by (auto simp add: thoughts_at_def ps tm3)
  have len: "length (Thoughts (view w q)) = sl_len (Thoughts ?S)"
    by (rule view_length_thoughts[OF c])
  show "view w' q = (view w q)
           \<lparr>Thoughts := Thoughts (view w q) @
              [\<lparr>Index = of_nat (length (Thoughts (view w q))) + 1, Content = ct_Thought args,
                Created = clock w (ticks w), Revised = False, ParentIndex = 0\<rparr>],
            CurrentThought := of_nat (length (Thoughts (view w q))) + 1,
            EstimatedTotal := (if 0 < sint (ct_EstimatedTotal args) then ct_EstimatedTotal args
                               else EstimatedTotal (view w q)),
            Status := (if ct_NextNeeded args = Some False then ''completed''
                       else Status (view w q)),
            LastActivity := clock w (Suc (ticks w))\<rparr>"
    unfolding res len
    by (simp add: view_def Let_def th) (simp add: branch_ids_def sa3)
  show "cells_in q (next_addr w') w' q"
  proof -
    have "slice_ok q (next_addr ?w9) ts (length (thought_arrays ?w9 (sl_array ts)))"
      using a(2) by simp
    moreover have "\<forall>t\<in>set (thought_ptrs ?w9 ts). q \<le> t \<and> 0 < t \<and> t < next_addr ?w9"
      using c q h3(4) by (auto simp add: ps cells_in_def)
    moreover have "distinct (thought_ptrs ?w9 ts)"
      using c old by (auto simp add: ps cells_in_def)
    moreover have "slice_ok q (next_addr ?w9) (Branches ?S)
        (length (string_arrays ?w9 (sl_array (Branches ?S))))"
      using c h3(4) by (auto simp add: cells_in_def slice_ok_def sa3)
    moreover have "q < next_addr ?w9" using q h3(4) by simp
    ultimately show ?thesis
      unfolding res using q by (simp add: cells_in_def)
  qed
  have "agree_below q w ?w2" using q by (simp add: agree_below_def)
  moreover have "agree_below q ?w2 w3" by (rule a(3))
  moreover have "agree_below q w3 ?w9" by (simp add: agree_below_def sm3)
  ultimately show "agree_below q w w'"
    unfolding res by (blast intro: agree_below_trans)
  show "sessions w' = sessions w" unfolding res by (simp add: h3)
  show "next_addr w \<le> next_addr w'" unfolding res using h3(4) by simp
qed

lemma branchFunc_spec:
  assumes c: "cells_in q (next_addr w) w q"
    and run: "branchFunc args q w = (res, w')"
  shows "\<exists>b. res = Inr (q, ct_SessionID args @ ''_branch_''
                   @ format_d (of_nat (length (Branches (view w q))) + 1), b)
           \<and> cells_in (next_addr w) (next_addr w') w' b
           \<and> view w' b =
               \<lparr>ID = ct_SessionID args @ ''_branch_''
                   @ format_d (of_nat (length (Branches (view w q))) + 1),
                Problem = Problem (view w q) @ '' (Alternative branch)'',
                Thoughts = Thoughts (view w q),
                CurrentThought = of_nat (length (Thoughts (view w q))),
                EstimatedTotal = EstimatedTotal (view w q), Status = ''active'',
                SessionCreated = clock w (Suc (ticks w)),
                LastActivity = clock w (Suc (Suc (ticks w))),
                Branches = [], Version = 0\<rparr>"
    and "view w' q = (view w q)
           \<lparr>Branches := Branches (view w q) @
              [ct_SessionID args @ ''_branch_''
                 @ format_d (of_nat (length (Branches (view w q))) + 1)],
            LastActivity := clock w (ticks w)\<rparr>"
    and "cells_in q (next_addr w') w' q"
    and "agree_below q w w'"
    and "sessions w' = sessions w"
    and "next_addr w \<le> next_addr w'"
    and "thought_ptrs w' (Thoughts (session_mem w' q)) = thought_ptrs w (Thoughts (session_mem w q))"
proof -
  let ?S = "session_mem w q"
  let ?bid = "ct_SessionID args @ ''_branch_'' @ format_d (of_nat (sl_len (Branches ?S)) + 1)"
  obtain bs w1 where ap: "append_string (Branches ?S) ?bid w = (bs, w1)"
    by (cases "append_string (Branches ?S) ?bid w") auto
  let ?S' = "?S\<lparr>Branches := bs, LastActivity := clock w (ticks w)\<rparr>"
  let ?w4 = "w1\<lparr>ticks := Suc (ticks w), session_mem := (session_mem w)(q := ?S')\<rparr>"
  obtain tc w5 where dc: "deepCopyThoughts (Thoughts ?S) ?w4 = (tc, w5)"
    by (cases "deepCopyThoughts (Thoughts ?S) ?w4") auto
  let ?b = "next_addr w5"
  let ?B = "\<lparr>ID = ?bid, Problem = Problem ?S @ '' (Alternative branch)'', Thoughts = tc,
      CurrentThought = of_nat (sl_len (Thoughts ?S)), EstimatedTotal = EstimatedTotal ?S,
      Status = ''active'', SessionCreated = clock w (Suc (ticks w)),
      LastActivity = clock w (Suc (Suc (ticks w))), Branches = nil_slice, Version = 0\<rparr>"
  let ?w8 = "w5\<lparr>ticks := Suc (Suc (Suc (ticks w))), next_addr := Suc ?b,
      session_mem := (session_mem w)(q := ?S', ?b := ?B)\<rparr>"
  have q: "q < next_addr w" "0 < q" using c by (simp_all add: cells_in_def)
  have ok: "slice_ok q (next_addr w) (Branches ?S) (length (string_arrays w (sl_array (Branches ?S))))"
    using c by (simp add: cells_in_def)
  have lo: "q \<le> next_addr w" "0 < next_addr w" using q by simp_all
  note a = append_string_spec[OF ok lo ap]
  have h1: "sessions w1 = sessions w" "clock w1 = clock w" "ticks w1 = ticks w"
    "next_addr w \<le> next_addr w1"
    using a(4) by (simp_all add: heap_only_def)
  have sm1: "session_mem w1 = session_mem w" using a(5) by simp
  have tm1: "thought_mem w1 = thought_mem w" using a(6) by simp
  have ta1: "thought_arrays w1 = thought_arrays w" using a(7) by simp
  have tlen: "sl_len (Thoughts ?S) \<le> length (thought_arrays ?w4 (sl_array (Thoughts ?S)))"
    using c by (simp add: cells_in_def slice_ok_def ta1)
  have told: "\<forall>t\<in>set (thought_ptrs ?w4 (Thoughts ?S)). t < next_addr ?w4"
    using c h1(4) by (auto simp add: cells_in_def thought_ptrs_def ta1)
  note d = deepCopyThoughts_spec[OF tlen told dc]
  have d1: "tc = \<lparr>sl_array = next_addr w1, sl_len = sl_len (Thoughts ?S),
                  sl_cap = sl_len (Thoughts ?S)\<rparr>"
    using d(1) by simp
  have d2: "?b = Suc (next_addr w1 + sl_len (Thoughts ?S))" using d(2) by simp
  have d3: "thought_arrays w5 (next_addr w1)
              = [Suc (next_addr w1) ..< Suc (next_addr w1 + sl_len (Thoughts ?S))]"
    using d(3) by (simp del: upt_Suc)
  have h5: "sessions w5 = sessions w" "clock w5 = clock w" "ticks w5 = Suc (ticks w)"
    using d(6) by (simp_all add: heap_only_def h1)
  have sm5: "session_mem w5 = (session_mem w)(q := ?S')" using d(7) by simp
  have sa5: "string_arrays w5 = string_arrays w1" using d(8) by simp
  have r: "branchFunc args q w = (Inr (q, ?bid, ?b), ?w8)"
    using ap dc
    by (simp add: branchFunc_def Let_def time_Now_def new_session_eq sm1 h1 sm5 h5)
  have "res = fst (branchFunc args q w)" "w' = snd (branchFunc args q w)"
    using run by simp_all
  then have res: "res = Inr (q, ?bid, ?b)" "w' = ?w8" unfolding r by simp_all
  have bq: "?b \<noteq> q" using q h1(4) d2 by simp
  have lenT: "length (Thoughts (view w q)) = sl_len (Thoughts ?S)"
    by (rule view_length_thoughts[OF c])
  have lenB: "length (Branches (view w q)) = sl_len (Branches ?S)"
    by (rule view_length_branches[OF c])
  have a4: "agree_below q w ?w4"
  proof -
    have "agree_below q w w1" by (rule a(3))
    moreover have "agree_below q w1 ?w4" by (simp add: agree_below_def sm1)
    ultimately show ?thesis by (rule agree_below_trans)
  qed
  have c4: "cells_in q (next_addr ?w4) ?w4 q"
  proof -
    have "slice_ok q (next_addr w1) bs (length (string_arrays w1 (sl_array bs)))"
      by (rule a(2))
    then show ?thesis
      using c h1(4)
      by (auto simp add: cells_in_def thought_ptrs_def ta1 slice_ok_def)
  qed
  have a8: "agree_below (next_addr ?w4) ?w4 ?w8"
  proof -
    have "agree_below (next_addr ?w4) ?w4 w5" by (rule d(5))
    moreover have "agree_below (next_addr ?w4) w5 ?w8"
      using d2 by (simp add: agree_below_def sm5)
    ultimately show ?thesis by (rule agree_below_trans)
  qed
  note c8 = cells_in_agree[OF c4 a8]
  have n8: "next_addr ?w4 \<le> next_addr ?w8" using d2 by simp
  show "cells_in q (next_addr w') w' q"
    unfolding res by (rule cells_in_mono[OF c8(1) le_refl n8])
  have v4: "view ?w4 q = (view w q)\<lparr>Branches := Branches (view w q) @ [?bid],
                                    LastActivity := clock w (ticks w)\<rparr>"
    using a(1) by (simp add: view_def Let_def thoughts_at_def thought_ptrs_def ta1 tm1 branch_ids_def)
  show "view w' q = (view w q)
           \<lparr>Branches := Branches (view w q) @
              [ct_SessionID args @ ''_branch_''
                 @ format_d (of_nat (length (Branches (view w q))) + 1)],
            LastActivity := clock w (ticks w)\<rparr>"
    unfolding res lenB using c8(2) v4 by simp
  have "agree_below q ?w4 ?w8"
    using a8 q h1(4) by (auto intro: agree_below_mono)
  with a4 show "agree_below q w w'" unfolding res by (rule agree_below_trans)
  show "sessions w' = sessions w" unfolding res by (simp add: h5)
  show "next_addr w \<le> next_addr w'" unfolding res using h1(4) d2 by simp
  have arr: "sl_array (Thoughts ?S) < next_addr ?w4"
    using c h1(4) by (simp add: cells_in_def slice_ok_def)
  have "thought_arrays w5 (sl_array (Thoughts ?S)) = thought_arrays ?w4 (sl_array (Thoughts ?S))"
    using d(5) arr unfolding agree_below_def by blast
  then show "thought_ptrs w' (Thoughts (session_mem w' q)) = thought_ptrs w (Thoughts (session_mem w q))"
    unfolding res using bq by (simp add: thought_ptrs_def ta1)
  define w8 where "w8 = ?w8"
  have f8: "session_mem w8 ?b = ?B" "thought_mem w8 = thought_mem w5"
    "thought_arrays w8 = thought_arrays w5" "string_arrays w8 = string_arrays w5"
    "next_addr w8 = Suc ?b"
    by (simp_all add: w8_def)
  have cb: "cells_in (next_addr w) (next_addr w8) w8 ?b"
    unfolding cells_in_def f8
    using q h1(4) d2
    by (auto simp add: slice_ok_def nil_slice_def thought_ptrs_def f8 d1 d3 simp del: upt_Suc)
  have thb: "thoughts_at w8 tc = thoughts_at w (Thoughts ?S)"
  proof -
    have "thoughts_at w8 tc = thoughts_at w5 tc"
      by (simp add: thoughts_at_def thought_ptrs_def f8)
    also have "\<dots> = thoughts_at ?w4 (Thoughts ?S)" by (rule d(4))
    also have "\<dots> = thoughts_at w (Thoughts ?S)"
      by (simp add: thoughts_at_def thought_ptrs_def ta1 tm1)
    finally show ?thesis .
  qed
  have vq: "Problem (view w q) = Problem ?S" "EstimatedTotal (view w q) = EstimatedTotal ?S"
    "Thoughts (view w q) = thoughts_at w (Thoughts ?S)"
    by (simp_all add: view_def Let_def)
  have vb: "view w8 ?b =
               \<lparr>ID = ?bid, Problem = Problem (view w q) @ '' (Alternative branch)'',
                Thoughts = Thoughts (view w q),
                CurrentThought = of_nat (sl_len (Thoughts ?S)),
                EstimatedTotal = EstimatedTotal (view w q), Status = ''active'',
                SessionCreated = clock w (Suc (ticks w)),
                LastActivity = clock w (Suc (Suc (ticks w))),
                Branches = [], Version = 0\<rparr>"
    unfolding view_def[of w8] Let_def f8 vq
    by (simp add: thb branch_ids_def nil_slice_def)
  show "\<exists>b. res = Inr (q, ct_SessionID args @ ''_branch_''
                   @ format_d (of_nat (length (Branches (view w q))) + 1), b)
           \<and> cells_in (next_addr w) (next_addr w') w' b
           \<and> view w' b =
               \<lparr>ID = ct_SessionID args @ ''_branch_''
                   @ format_d (of_nat (length (Branches (view w q))) + 1),
                Problem = Problem (view w q) @ '' (Alternative branch)'',
                Thoughts = Thoughts (view w q),
                CurrentThought = of_nat (length (Thoughts (view w q))),
                EstimatedTotal = EstimatedTotal (view w q), Status = ''active'',
                SessionCreated = clock w (Suc (ticks w)),
                LastActivity = clock w (Suc (Suc (ticks w))),
                Branches = [], Version = 0\<rparr>"
    unfolding res lenT lenB using cb[unfolded w8_def] vb[unfolded w8_def] by blast
qed

lemma confinedD:
  assumes "confined f" "cells_in q (next_addr w) w q" "f q w = (res, w')"
  shows "agree_below q w w'" "sessions w' = sessions w" "next_addr w \<le> next_addr w'"
    "res = Inr (u, r) \<Longrightarrow> cells_in q (next_addr w') w' u"
  using assms unfolding confined_def by blast+

lemma confined_reviseFunc: "confined (reviseFunc args reviseStep)"
  unfolding confined_def
proof (intro allI impI)
  fix q w res w'
  assume c: "cells_in q (next_addr w) w q" and run: "reviseFunc args reviseStep q w = (res, w')"
  show "agree_below q w w' \<and> sessions w' = sessions w \<and> next_addr w \<le> next_addr w'
        \<and> (\<forall>u r. res = Inr (u, r) \<longrightarrow> cells_in q (next_addr w') w' u)"
  proof (cases "sint (reviseStep - 1) < 0 \<or> int (length (Thoughts (view w q))) \<le> sint (reviseStep - 1)")
    case True
    from reviseFunc_invalid[OF c True, of args] run
    have "res = Inl (InvalidStepNumber reviseStep)" "w' = w" by simp_all
    then show ?thesis by (simp add: agree_below_refl)
  next
    case False
    then have ok: "0 \<le> sint (reviseStep - 1)"
      "sint (reviseStep - 1) < int (length (Thoughts (view w q)))" by simp_all
    note v = reviseFunc_valid[OF c ok run]
    show ?thesis using v(1,3,4,5,6) by simp
  qed
qed

lemma confined_appendFunc: "confined (appendFunc args)"
  unfolding confined_def
proof (intro allI impI)
  fix q w res w'
  assume c: "cells_in q (next_addr w) w q" and run: "appendFunc args q w = (res, w')"
  note v = appendFunc_spec[OF c run]
  show "agree_below q w w' \<and> sessions w' = sessions w \<and> next_addr w \<le> next_addr w'
        \<and> (\<forall>u r. res = Inr (u, r) \<longrightarrow> cells_in q (next_addr w') w' u)"
    using v(1,3,4,5,6) by auto
qed

lemma confined_branchFunc: "confined (branchFunc args)"
  unfolding confined_def
proof (intro allI impI)
  fix q w res w'
  assume c: "cells_in q (next_addr w) w q" and run: "branchFunc args q w = (res, w')"
  note v = branchFunc_spec[OF c run]
  show "agree_below q w w' \<and> sessions w' = sessions w \<and> next_addr w \<le> next_addr w'
        \<and> (\<forall>u r. res = Inr (u, r) \<longrightarrow> cells_in q (next_addr w') w' u)"
    using v(1,3,4,5,6) by auto
qed

text \<open>One pass of the loop decides the call when it runs alone.\<close>

lemma CompareAndSwap_NotFound:
  "sessions w sid = None \<Longrightarrow> CompareAndSwap sid f w = Some (Inl (NotFound sid), w)"
  by (subst CompareAndSwap.simps) simp

lemma CompareAndSwap_fail:
  assumes "sessions w sid = Some cur" "clone cur w = (c, w1)" "f c w1 = (Inl e, w2)"
  shows "CompareAndSwap sid f w = Some (Inl e, w2)"
  using assms by (subst CompareAndSwap.simps) simp

lemma CompareAndSwap_commit:
  assumes wf: "wf_world w" and conf: "confined f"
    and cur: "sessions w sid = Some cur"
    and cl: "clone cur w = (c, w1)"
    and run: "f c w1 = (Inr (u, r), w2)"
  shows "CompareAndSwap sid f w =
           Some (Inr r, w2\<lparr>session_mem := (session_mem w2)
                              (u := (session_mem w2 u)\<lparr>Version := Version (session_mem w cur) + 1\<rparr>),
                           sessions := (sessions w)(sid \<mapsto> u)\<rparr>)"
proof -
  have cc: "cells_in 0 (next_addr w) w cur" using wf cur by (simp add: wf_world_def)
  note k = clone_spec[OF cc cl]
  have c1: "cells_in c (next_addr w1) w1 c" using k(3) by (simp add: k(1))
  note f = confinedD[OF conf c1 run]
  have s2: "sessions w2 = sessions w" using f(2) k(5) by (simp add: heap_only_def)
  have lt: "cur < c" using cc by (simp add: cells_in_def k(1))
  have v1: "session_mem w1 cur = session_mem w cur"
    using k(4) cc by (simp add: agree_below_def cells_in_def)
  have v2: "session_mem w2 cur = session_mem w1 cur"
    using f(1) lt by (simp add: agree_below_def)
  show ?thesis
    by (subst CompareAndSwap.simps) (simp add: cur cl run s2 v1 v2)
qed

lemma CompareAndSwap_commit_post:
  assumes wf: "wf_world w" and conf: "confined f"
    and cur: "sessions w sid = Some cur"
    and cl: "clone cur w = (c, w1)"
    and run: "f c w1 = (Inr (u, r), w2)"
    and w3: "w3 = w2\<lparr>session_mem := (session_mem w2)
                              (u := (session_mem w2 u)\<lparr>Version := Version (session_mem w cur) + 1\<rparr>),
                           sessions := (sessions w)(sid \<mapsto> u)\<rparr>"
  shows "wf_world w3"
    and "view w3 u = (view w2 u)\<lparr>Version := Version (view w cur) + 1\<rparr>"
    and "\<forall>s p. sessions w s = Some p \<longrightarrow> view w3 p = view w p"
    and "next_addr w \<le> u"
proof -
  have cc: "cells_in 0 (next_addr w) w cur" using wf cur by (simp add: wf_world_def)
  note k = clone_spec[OF cc cl]
  have c1: "cells_in c (next_addr w1) w1 c" using k(3) by (simp add: k(1))
  note f = confinedD[OF conf c1 run]
  have cu: "cells_in c (next_addr w2) w2 u" by (rule f(4)) simp
  have n12: "next_addr w \<le> next_addr w1" "next_addr w1 \<le> next_addr w2"
    using k(5) f(3) by (simp_all add: heap_only_def)
  have cu3: "cells_in c (next_addr w3) w3 u"
    using cu by (simp add: w3 cells_in_def thought_ptrs_def)
  show nu: "next_addr w \<le> u" using cu by (simp add: cells_in_def k(1))
  have a2: "agree_below (next_addr w) w w2"
    using k(4) f(1) by (auto simp add: k(1) intro: agree_below_trans)
  have a3: "agree_below (next_addr w) w w3"
    using a2 nu by (simp add: agree_below_def w3)
  have old: "\<And>s p. sessions w s = Some p \<Longrightarrow> cells_in 0 (next_addr w3) w3 p \<and> view w3 p = view w p"
  proof -
    fix s p assume "sessions w s = Some p"
    then have cp: "cells_in 0 (next_addr w) w p" using wf by (simp add: wf_world_def)
    note g = cells_in_agree[OF cp a3]
    have "next_addr w \<le> next_addr w3" using n12 by (simp add: w3)
    with g show "cells_in 0 (next_addr w3) w3 p \<and> view w3 p = view w p"
      by (auto intro: cells_in_mono)
  qed
  then show "\<forall>s p. sessions w s = Some p \<longrightarrow> view w3 p = view w p" by blast
  show "wf_world w3"
    unfolding wf_world_def
  proof (intro conjI allI impI)
    show "0 < next_addr w3" using wf n12 by (simp add: wf_world_def w3)
  next
    fix s p assume sp: "sessions w3 s = Some p"
    show "cells_in 0 (next_addr w3) w3 p"
    proof (cases "s = sid")
      case True
      then have "p = u" using sp by (simp add: w3)
      then show ?thesis using cu3 by (auto intro: cells_in_mono)
    next
      case False
      then have "sessions w s = Some p" using sp by (simp add: w3)
      then show ?thesis using old by blast
    qed
  qed
  show "view w3 u = (view w2 u)\<lparr>Version := Version (view w cur) + 1\<rparr>"
    by (simp add: w3 view_def Let_def thoughts_at_def thought_ptrs_def branch_ids_def)
qed

lemma CompareAndSwap_fail_post:
  assumes wf: "wf_world w" and conf: "confined f"
    and cur: "sessions w sid = Some cur"
    and cl: "clone cur w = (c, w1)"
    and run: "f c w1 = (Inl e, w2)"
  shows "wf_world w2"
    and "sessions w2 = sessions w"
    and "\<forall>s p. sessions w s = Some p \<longrightarrow> view w2 p = view w p"
proof -
  have cc: "cells_in 0 (next_addr w) w cur" using wf cur by (simp add: wf_world_def)
  note k = clone_spec[OF cc cl]
  have c1: "cells_in c (next_addr w1) w1 c" using k(3) by (simp add: k(1))
  note f = confinedD[OF conf c1 run]
  show s2: "sessions w2 = sessions w" using f(2) k(5) by (simp add: heap_only_def)
  have n12: "next_addr w \<le> next_addr w2"
    using k(5) f(3) by (simp add: heap_only_def)
  have a2: "agree_below (next_addr w) w w2"
    using k(4) f(1) by (auto simp add: k(1) intro: agree_below_trans)
  have old: "\<And>s p. sessions w s = Some p \<Longrightarrow> cells_in 0 (next_addr w2) w2 p \<and> view w2 p = view w p"
  proof -
    fix s p assume "sessions w s = Some p"
    then have cp: "cells_in 0 (next_addr w) w p" using wf by (simp add: wf_world_def)
    note g = cells_in_agree[OF cp a2]
    with n12 show "cells_in 0 (next_addr w2) w2 p \<and> view w2 p = view w p"
      by (auto intro: cells_in_mono)
  qed
  then show "\<forall>s p. sessions w s = Some p \<longrightarrow> view w2 p = view w p" by blast
  show "wf_world w2"
    unfolding wf_world_def using wf n12 old by (auto simp add: s2 wf_world_def)
qed

lemma StartThinking_eq:
  "\<exists>txt. StartThinking args w =
     (Inr txt,
      w\<lparr>rand_count := (if st_SessionID args = [] then Suc (rand_count w) else rand_count w),
        ticks := Suc (Suc (ticks w)), next_addr := Suc (next_addr w),
        session_mem := (session_mem w)(next_addr w :=
          \<lparr>ID = (if st_SessionID args = [] then rand_source w (rand_count w) else st_SessionID args),
           Problem = st_Problem args, Thoughts = nil_slice,
           CurrentThought = 0,
           EstimatedTotal = (if st_EstimatedSteps args = 0 then 5 else st_EstimatedSteps args),
           Status = ''active'', SessionCreated = clock w (ticks w),
           LastActivity = clock w (Suc (ticks w)), Branches = nil_slice, Version = 0\<rparr>),
        sessions := (sessions w)
          ((if st_SessionID args = [] then rand_source w (rand_count w) else st_SessionID args)
             \<mapsto> next_addr w)\<rparr>)"
  by (simp add: StartThinking_def rand_Text_def time_Now_def new_session_eq SetSession_def Let_def)

section \<open>Starting a session\<close>

text \<open>
  C8. \<^verbatim>\<open>StartThinking\<close> always succeeds. It registers, under the supplied session id or,
  when that is empty, under the text \<^verbatim>\<open>rand.Text()\<close> returns, a new session with that
  id, the problem text, no thoughts, no branches, current thought 0, status
  \<^verbatim>\<open>active\<close>, version 0, the two clock readings, and the supplied estimate or 5 when the
  estimate is absent (0). The store's map is updated at that key whatever it held
  before, so an existing session under the id is replaced. (That the generated text
  differs from the ids in use is a property of \<^verbatim>\<open>crypto/rand\<close>, not of this code.)
\<close>

theorem StartThinking_registers_fresh_session:
  "\<exists>txt p. fst (StartThinking args w) = Inr txt
     \<and> sessions (snd (StartThinking args w)) =
         (sessions w)
           ((if st_SessionID args = [] then rand_source w (rand_count w) else st_SessionID args)
              \<mapsto> p)
     \<and> view (snd (StartThinking args w)) p =
         \<lparr>ID = (if st_SessionID args = [] then rand_source w (rand_count w)
                else st_SessionID args),
          Problem = st_Problem args, Thoughts = [], CurrentThought = 0,
          EstimatedTotal = (if st_EstimatedSteps args = 0 then 5 else st_EstimatedSteps args),
          Status = ''active'', SessionCreated = clock w (ticks w),
          LastActivity = clock w (Suc (ticks w)), Branches = [], Version = 0\<rparr>"
proof -
  obtain reply where e: "StartThinking args w = (Inr reply, snd (StartThinking args w))"
    using StartThinking_eq[of args w] by auto
  show ?thesis
    using StartThinking_eq[of args w]
    by (auto simp add: view_def Let_def thoughts_at_def thought_ptrs_def branch_ids_def
        nil_slice_def)
qed

text \<open>
  C9 as stated does not hold: \<^verbatim>\<open>StartThinking\<close> has no validation. With an empty
  problem text and the estimate -1 it succeeds and changes the store.
\<close>

theorem StartThinking_no_validation_counterexample:
  "\<not> isl (fst (StartThinking \<lparr>st_Problem = [], st_SessionID = ''s'', st_EstimatedSteps = - 1\<rparr>
                 initial_world))
   \<and> sessions (snd (StartThinking \<lparr>st_Problem = [], st_SessionID = ''s'', st_EstimatedSteps = - 1\<rparr>
                 initial_world)) \<noteq> sessions initial_world"
proof -
  let ?a = "\<lparr>st_Problem = [], st_SessionID = ''s'', st_EstimatedSteps = - 1\<rparr>"
  obtain reply where e: "StartThinking ?a initial_world =
     (Inr reply, snd (StartThinking ?a initial_world))"
    and s: "sessions (snd (StartThinking ?a initial_world)) ''s'' = Some (next_addr initial_world)"
    using StartThinking_eq[of ?a initial_world] by auto
  have "sessions initial_world ''s'' = None" by (simp add: initial_world_def)
  with s have "sessions (snd (StartThinking ?a initial_world)) \<noteq> sessions initial_world"
    by (metis option.distinct(1))
  moreover have "\<not> isl (fst (StartThinking ?a initial_world))"
    by (subst e) simp
  ultimately show ?thesis by blast
qed

text \<open>
  C9, amended. \<^verbatim>\<open>StartThinking\<close> succeeds on every input, an empty problem text
  and a non-positive estimate included, and registers a session that carries the problem
  text as given and the estimate as given, except that an estimate of 0 becomes 5.
\<close>

theorem StartThinking_accepts_every_input:
  "\<exists>txt p. StartThinking args w = (Inr txt, snd (StartThinking args w))
     \<and> sessions (snd (StartThinking args w)) (start_id args w) = Some p
     \<and> Problem (view (snd (StartThinking args w)) p) = st_Problem args
     \<and> EstimatedTotal (view (snd (StartThinking args w)) p) =
         (if st_EstimatedSteps args = 0 then 5 else st_EstimatedSteps args)"
  using StartThinking_eq[of args w]
  by (auto simp add: view_def Let_def start_id_def)

lemma sint_bounds64:
  fixes x :: go_int
  shows "- 9223372036854775808 \<le> sint x" "sint x < 9223372036854775808"
  using sint_ge[of x] sint_lt[of x] by simp_all

lemma sint_pred:
  fixes x :: go_int
  assumes "- 9223372036854775808 < sint x"
  shows "sint (x - 1) = sint x - 1"
proof -
  have "- (2 ^ 63) \<le> sint x - 1" "sint x - 1 < 2 ^ 63"
    using assms sint_bounds64(2)[of x] by simp_all
  then have "signed_take_bit 63 (sint x - 1) = sint x - 1"
    by (simp only: signed_take_bit_int_eq_self)
  then show ?thesis
    by (simp add: sint_word_ariths)
qed

lemma sint_pred_min:
  fixes x :: go_int
  assumes "sint x = - 9223372036854775808"
  shows "sint (x - 1) = 9223372036854775807"
proof -
  have "sint (x - 1) = signed_take_bit 63 (sint x - 1)"
    by (simp add: sint_word_ariths)
  also have "\<dots> = signed_take_bit 63 (- 9223372036854775809 :: int)"
    by (simp add: assms)
  also have "\<dots> = 9223372036854775807"
    by code_simp
  finally show ?thesis .
qed

lemma step_in_range_iff:
  fixes x :: go_int
  assumes "n < 9223372036854775808"
  shows "(0 \<le> sint (x - 1) \<and> sint (x - 1) < int n) \<longleftrightarrow> (1 \<le> sint x \<and> sint x \<le> int n)"
proof (cases "sint x = - 9223372036854775808")
  case True
  have "int n < 9223372036854775808" using assms by linarith
  moreover have "sint (x - 1) = 9223372036854775807" using True by (rule sint_pred_min)
  ultimately show ?thesis using True by linarith
next
  case False
  with sint_bounds64(1)[of x] have "- 9223372036854775808 < sint x" by linarith
  then have "sint (x - 1) = sint x - 1" by (rule sint_pred)
  then show ?thesis by linarith
qed

lemma ContinueThinking_NotFound:
  assumes "sessions w (ct_SessionID args) = None"
  shows "ContinueThinking args w = Some (Inl (NotFound (ct_SessionID args)), w)"
  using assms
  by (simp add: ContinueThinking_def CompareAndSwap_NotFound split: option.splits)

lemma revise_invalid:
  assumes wf: "wf_world w"
    and rs: "ct_ReviseStep args = Some reviseStep"
    and cur: "sessions w (ct_SessionID args) = Some cur"
    and bad: "sint (reviseStep - 1) < 0
              \<or> int (length (Thoughts (view w cur))) \<le> sint (reviseStep - 1)"
  shows "\<exists>w'. ContinueThinking args w = Some (Inl (InvalidStepNumber reviseStep), w')
           \<and> sessions w' = sessions w
           \<and> (\<forall>s p. sessions w s = Some p \<longrightarrow> view w' p = view w p)
           \<and> wf_world w'"
proof -
  obtain c w1 where cl: "clone cur w = (c, w1)" by (cases "clone cur w") auto
  have cc: "cells_in 0 (next_addr w) w cur" using wf cur by (simp add: wf_world_def)
  note k = clone_spec[OF cc cl]
  have c1: "cells_in c (next_addr w1) w1 c" using k(3) by (simp add: k(1))
  have bad1: "sint (reviseStep - 1) < 0
              \<or> int (length (Thoughts (view w1 c))) \<le> sint (reviseStep - 1)"
    using bad by (simp add: k(2))
  have run: "reviseFunc args reviseStep c w1 = (Inl (InvalidStepNumber reviseStep), w1)"
    by (rule reviseFunc_invalid[OF c1 bad1])
  have "CompareAndSwap (ct_SessionID args) (reviseFunc args reviseStep) w
          = Some (Inl (InvalidStepNumber reviseStep), w1)"
    by (rule CompareAndSwap_fail[where f="reviseFunc args reviseStep", OF cur cl run])
  then have "ContinueThinking args w = Some (Inl (InvalidStepNumber reviseStep), w1)"
    by (simp add: ContinueThinking_def rs)
  moreover note CompareAndSwap_fail_post[OF wf confined_reviseFunc cur cl run]
  ultimately show ?thesis by blast
qed

lemma revise_valid:
  assumes wf: "wf_world w"
    and rs: "ct_ReviseStep args = Some reviseStep"
    and cur: "sessions w (ct_SessionID args) = Some cur"
    and ok: "0 \<le> sint (reviseStep - 1)"
            "sint (reviseStep - 1) < int (length (Thoughts (view w cur)))"
  shows "\<exists>reply u w'. ContinueThinking args w = Some (Inr reply, w')
           \<and> sessions w' = (sessions w)(ct_SessionID args \<mapsto> u)
           \<and> view w' u = (view w cur)
               \<lparr>Thoughts := (Thoughts (view w cur))
                  [nat (sint (reviseStep - 1)) :=
                     (Thoughts (view w cur) ! nat (sint (reviseStep - 1)))
                       \<lparr>Content := ct_Thought args, Revised := True\<rparr>],
                LastActivity := clock w (ticks w),
                Version := Version (view w cur) + 1\<rparr>
           \<and> (\<forall>s p. sessions w s = Some p \<longrightarrow> view w' p = view w p)
           \<and> wf_world w'"
proof -
  obtain c w1 where cl: "clone cur w = (c, w1)" by (cases "clone cur w") auto
  have cc: "cells_in 0 (next_addr w) w cur" using wf cur by (simp add: wf_world_def)
  note k = clone_spec[OF cc cl]
  have c1: "cells_in c (next_addr w1) w1 c" using k(3) by (simp add: k(1))
  have env: "clock w1 = clock w" "ticks w1 = ticks w" using k(5) by (simp_all add: heap_only_def)
  obtain res w2 where run0: "reviseFunc args reviseStep c w1 = (res, w2)"
    by (cases "reviseFunc args reviseStep c w1") auto
  have ok1: "0 \<le> sint (reviseStep - 1)"
            "sint (reviseStep - 1) < int (length (Thoughts (view w1 c)))"
    using ok by (simp_all add: k(2))
  note v = reviseFunc_valid[OF c1 ok1 run0]
  have run: "reviseFunc args reviseStep c w1 = (Inr (c, ()), w2)" using run0 v(1) by simp
  define w3 where "w3 = w2\<lparr>session_mem := (session_mem w2)
      (c := (session_mem w2 c)\<lparr>Version := Version (session_mem w cur) + 1\<rparr>),
      sessions := (sessions w)(ct_SessionID args \<mapsto> c)\<rparr>"
  have "CompareAndSwap (ct_SessionID args) (reviseFunc args reviseStep) w = Some (Inr (), w3)"
    unfolding w3_def by (rule CompareAndSwap_commit[OF wf confined_reviseFunc cur cl run])
  then have ct: "\<exists>reply. ContinueThinking args w = Some (Inr reply, w3)"
    by (simp add: ContinueThinking_def rs)
  note p = CompareAndSwap_commit_post[OF wf confined_reviseFunc cur cl run w3_def]
  have s3: "sessions w3 = (sessions w)(ct_SessionID args \<mapsto> c)" by (simp add: w3_def)
  have "view w3 c = (view w cur)
               \<lparr>Thoughts := (Thoughts (view w cur))
                  [nat (sint (reviseStep - 1)) :=
                     (Thoughts (view w cur) ! nat (sint (reviseStep - 1)))
                       \<lparr>Content := ct_Thought args, Revised := True\<rparr>],
                LastActivity := clock w (ticks w),
                Version := Version (view w cur) + 1\<rparr>"
    by (simp add: p(2) v(2) k(2) env)
  with ct s3 p(1,3) show ?thesis by blast
qed

lemma append_ok:
  assumes wf: "wf_world w"
    and rs: "ct_ReviseStep args = None" and nb: "\<not> ct_CreateBranch args"
    and cur: "sessions w (ct_SessionID args) = Some cur"
  shows "\<exists>reply u w'. ContinueThinking args w = Some (Inr reply, w')
           \<and> sessions w' = (sessions w)(ct_SessionID args \<mapsto> u)
           \<and> view w' u = (view w cur)
               \<lparr>Thoughts := Thoughts (view w cur) @
                  [\<lparr>Index = of_nat (length (Thoughts (view w cur))) + 1,
                    Content = ct_Thought args, Created = clock w (ticks w),
                    Revised = False, ParentIndex = 0\<rparr>],
                CurrentThought := of_nat (length (Thoughts (view w cur))) + 1,
                EstimatedTotal := (if 0 < sint (ct_EstimatedTotal args)
                                   then ct_EstimatedTotal args
                                   else EstimatedTotal (view w cur)),
                Status := (if ct_NextNeeded args = Some False then ''completed''
                           else Status (view w cur)),
                LastActivity := clock w (Suc (ticks w)),
                Version := Version (view w cur) + 1\<rparr>
           \<and> (\<forall>s p. sessions w s = Some p \<longrightarrow> view w' p = view w p)
           \<and> wf_world w'"
proof -
  obtain c w1 where cl: "clone cur w = (c, w1)" by (cases "clone cur w") auto
  have cc: "cells_in 0 (next_addr w) w cur" using wf cur by (simp add: wf_world_def)
  note k = clone_spec[OF cc cl]
  have c1: "cells_in c (next_addr w1) w1 c" using k(3) by (simp add: k(1))
  have env: "clock w1 = clock w" "ticks w1 = ticks w" using k(5) by (simp_all add: heap_only_def)
  obtain res w2 where run0: "appendFunc args c w1 = (res, w2)"
    by (cases "appendFunc args c w1") auto
  note v = appendFunc_spec[OF c1 run0]
  obtain r where run: "appendFunc args c w1 = (Inr (c, r), w2)" using run0 v(1) by auto
  define w3 where "w3 = w2\<lparr>session_mem := (session_mem w2)
      (c := (session_mem w2 c)\<lparr>Version := Version (session_mem w cur) + 1\<rparr>),
      sessions := (sessions w)(ct_SessionID args \<mapsto> c)\<rparr>"
  have "CompareAndSwap (ct_SessionID args) (appendFunc args) w = Some (Inr r, w3)"
    unfolding w3_def by (rule CompareAndSwap_commit[OF wf confined_appendFunc cur cl run])
  then have ct: "\<exists>reply. ContinueThinking args w = Some (Inr reply, w3)"
    by (cases r) (simp add: ContinueThinking_def rs nb)
  note p = CompareAndSwap_commit_post[OF wf confined_appendFunc cur cl run w3_def]
  have s3: "sessions w3 = (sessions w)(ct_SessionID args \<mapsto> c)" by (simp add: w3_def)
  have "view w3 c = (view w cur)
               \<lparr>Thoughts := Thoughts (view w cur) @
                  [\<lparr>Index = of_nat (length (Thoughts (view w cur))) + 1,
                    Content = ct_Thought args, Created = clock w (ticks w),
                    Revised = False, ParentIndex = 0\<rparr>],
                CurrentThought := of_nat (length (Thoughts (view w cur))) + 1,
                EstimatedTotal := (if 0 < sint (ct_EstimatedTotal args)
                                   then ct_EstimatedTotal args
                                   else EstimatedTotal (view w cur)),
                Status := (if ct_NextNeeded args = Some False then ''completed''
                           else Status (view w cur)),
                LastActivity := clock w (Suc (ticks w)),
                Version := Version (view w cur) + 1\<rparr>"
    by (simp add: p(2) v(2) k(2) env)
  with ct s3 p(1,3) show ?thesis by blast
qed

lemma branch_ok:
  assumes wf: "wf_world w"
    and rs: "ct_ReviseStep args = None" and cb: "ct_CreateBranch args"
    and cur: "sessions w (ct_SessionID args) = Some cur"
  shows "\<exists>reply u b w'. ContinueThinking args w = Some (Inr reply, w')
           \<and> sessions w' = (sessions w)
                (ct_SessionID args \<mapsto> u,
                 ct_SessionID args @ ''_branch_''
                   @ format_d (of_nat (length (Branches (view w cur))) + 1) \<mapsto> b)
           \<and> view w' u = (view w cur)
               \<lparr>Branches := Branches (view w cur) @
                  [ct_SessionID args @ ''_branch_''
                     @ format_d (of_nat (length (Branches (view w cur))) + 1)],
                LastActivity := clock w (ticks w),
                Version := Version (view w cur) + 1\<rparr>
           \<and> view w' b =
               \<lparr>ID = ct_SessionID args @ ''_branch_''
                   @ format_d (of_nat (length (Branches (view w cur))) + 1),
                Problem = Problem (view w cur) @ '' (Alternative branch)'',
                Thoughts = Thoughts (view w cur),
                CurrentThought = of_nat (length (Thoughts (view w cur))),
                EstimatedTotal = EstimatedTotal (view w cur), Status = ''active'',
                SessionCreated = clock w (Suc (ticks w)),
                LastActivity = clock w (Suc (Suc (ticks w))),
                Branches = [], Version = 0\<rparr>
           \<and> (\<exists>m. cells_in m (next_addr w') w' b \<and> u < m \<and> next_addr w \<le> u
                  \<and> (\<forall>t\<in>set (thought_ptrs w' (Thoughts (session_mem w' u))). t < m))
           \<and> (\<forall>s p. sessions w s = Some p \<longrightarrow> view w' p = view w p)
           \<and> wf_world w'"
proof -
  let ?bid = "ct_SessionID args @ ''_branch_''
                   @ format_d (of_nat (length (Branches (view w cur))) + 1)"
  obtain c w1 where cl: "clone cur w = (c, w1)" by (cases "clone cur w") auto
  have cc: "cells_in 0 (next_addr w) w cur" using wf cur by (simp add: wf_world_def)
  note k = clone_spec[OF cc cl]
  have c1: "cells_in c (next_addr w1) w1 c" using k(3) by (simp add: k(1))
  have env: "clock w1 = clock w" "ticks w1 = ticks w" using k(5) by (simp_all add: heap_only_def)
  obtain res w2 where run0: "branchFunc args c w1 = (res, w2)"
    by (cases "branchFunc args c w1") auto
  note v = branchFunc_spec[OF c1 run0]
  from v(1) obtain b where b: "res = Inr (c, ?bid, b)"
    and cb2: "cells_in (next_addr w1) (next_addr w2) w2 b"
    and vb2: "view w2 b =
               \<lparr>ID = ?bid, Problem = Problem (view w cur) @ '' (Alternative branch)'',
                Thoughts = Thoughts (view w cur),
                CurrentThought = of_nat (length (Thoughts (view w cur))),
                EstimatedTotal = EstimatedTotal (view w cur), Status = ''active'',
                SessionCreated = clock w (Suc (ticks w)),
                LastActivity = clock w (Suc (Suc (ticks w))),
                Branches = [], Version = 0\<rparr>"
    by (auto simp add: k(2) env)
  have run: "branchFunc args c w1 = (Inr (c, ?bid, b), w2)" using run0 b by simp
  define w3 where "w3 = w2\<lparr>session_mem := (session_mem w2)
      (c := (session_mem w2 c)\<lparr>Version := Version (session_mem w cur) + 1\<rparr>),
      sessions := (sessions w)(ct_SessionID args \<mapsto> c)\<rparr>"
  define w4 where "w4 = SetSession b w3"
  have cas: "CompareAndSwap (ct_SessionID args) (branchFunc args) w = Some (Inr (?bid, b), w3)"
    unfolding w3_def by (rule CompareAndSwap_commit[OF wf confined_branchFunc cur cl run])
  have ct: "\<exists>reply. ContinueThinking args w = Some (Inr reply, w4)"
    by (simp add: ContinueThinking_def rs cb cas w4_def Let_def)
  note p = CompareAndSwap_commit_post[OF wf confined_branchFunc cur cl run w3_def]
  have cn: "c < next_addr w1" using c1 by (simp add: cells_in_def)
  have bc: "b \<noteq> c" "c < next_addr w1" "next_addr w1 \<le> b"
    using cb2 cn by (simp_all add: cells_in_def)
  have sm3: "session_mem w3 b = session_mem w2 b" using bc by (simp add: w3_def)
  have vb3: "view w3 b = view w2 b"
    by (simp add: view_def Let_def sm3) (simp add: w3_def thoughts_at_def thought_ptrs_def branch_ids_def)
  have cb3: "cells_in (next_addr w1) (next_addr w3) w3 b"
    using cb2 by (simp add: cells_in_def sm3) (simp add: w3_def thought_ptrs_def)
  have idb: "ID (session_mem w3 b) = ?bid"
    using vb2 by (simp add: sm3 view_def Let_def)
  have s4: "sessions w4 = (sessions w)(ct_SessionID args \<mapsto> c, ?bid \<mapsto> b)"
    by (simp add: w4_def SetSession_def idb) (simp add: w3_def)
  have v4: "view w4 x = view w3 x" for x
    by (simp add: w4_def SetSession_def view_def Let_def thoughts_at_def thought_ptrs_def
        branch_ids_def)
  have c4: "cells_in lo hi w4 x = cells_in lo hi w3 x" for lo hi x
    by (simp add: w4_def SetSession_def cells_in_def thought_ptrs_def)
  have n4: "next_addr w4 = next_addr w3" by (simp add: w4_def SetSession_def)
  have vc: "view w4 c = (view w cur)
               \<lparr>Branches := Branches (view w cur) @ [?bid],
                LastActivity := clock w (ticks w),
                Version := Version (view w cur) + 1\<rparr>"
    by (simp add: v4 p(2) v(2) k(2) env)
  have old: "\<forall>s p. sessions w s = Some p \<longrightarrow> view w4 p = view w p"
    using p(3) by (simp add: v4)
  have wf4: "wf_world w4"
    unfolding wf_world_def
  proof (intro conjI allI impI)
    show "0 < next_addr w4" using p(1) by (simp add: n4 wf_world_def)
  next
    fix s x assume sx: "sessions w4 s = Some x"
    show "cells_in 0 (next_addr w4) w4 x"
    proof (cases "s = ?bid")
      case True
      then have "x = b" using sx by (simp add: s4)
      then show ?thesis using cb3 by (auto simp add: c4 n4 intro: cells_in_mono)
    next
      case False
      then have "sessions w3 s = Some x" using sx by (simp add: s4 w3_def)
      then show ?thesis using p(1) by (simp add: c4 n4 wf_world_def)
    qed
  qed
  have tp2: "thought_ptrs w2 (Thoughts (session_mem w2 c)) = thought_ptrs w1 (Thoughts (session_mem w1 c))"
    by (rule v(7))
  have tp4: "thought_ptrs w4 (Thoughts (session_mem w4 c)) = thought_ptrs w1 (Thoughts (session_mem w1 c))"
    unfolding tp2[symmetric]
    by (simp add: w4_def SetSession_def w3_def thought_ptrs_def)
  have lt: "\<forall>t\<in>set (thought_ptrs w4 (Thoughts (session_mem w4 c))). t < next_addr w1"
    unfolding tp4 using c1 by (simp add: cells_in_def)
  have sh: "cells_in (next_addr w1) (next_addr w4) w4 b \<and> c < next_addr w1 \<and> next_addr w \<le> c
              \<and> (\<forall>t\<in>set (thought_ptrs w4 (Thoughts (session_mem w4 c))). t < next_addr w1)"
    using cb3 bc lt by (simp add: c4 n4 k(1))
  from ct obtain reply where "ContinueThinking args w = Some (Inr reply, w4)" ..
  with s4 vc vb2 sh old wf4 show ?thesis
    unfolding v4[of b, symmetric] vb3[symmetric]
    by (intro exI[of _ reply] exI[of _ c] exI[of _ b] exI[of _ w4] conjI exI[of _ "next_addr w1"])
       (simp_all add: v4 vb3)
qed

lemma StartThinking_wf:
  assumes wf: "wf_world w"
  shows "wf_world (snd (StartThinking args w))"
    and "\<forall>s p. sessions w s = Some p \<longrightarrow> view (snd (StartThinking args w)) p = view w p"
proof -
  let ?w' = "snd (StartThinking args w)"
  from StartThinking_eq[of args w] obtain reply where
    e: "StartThinking args w = (Inr reply,
      w\<lparr>rand_count := (if st_SessionID args = [] then Suc (rand_count w) else rand_count w),
        ticks := Suc (Suc (ticks w)), next_addr := Suc (next_addr w),
        session_mem := (session_mem w)(next_addr w :=
          \<lparr>ID = start_id args w,
           Problem = st_Problem args, Thoughts = nil_slice,
           CurrentThought = 0,
           EstimatedTotal = (if st_EstimatedSteps args = 0 then 5 else st_EstimatedSteps args),
           Status = ''active'', SessionCreated = clock w (ticks w),
           LastActivity = clock w (Suc (ticks w)), Branches = nil_slice, Version = 0\<rparr>),
        sessions := (sessions w)(start_id args w \<mapsto> next_addr w)\<rparr>)"
    unfolding start_id_def by blast
  have f: "next_addr ?w' = Suc (next_addr w)"
    "sessions ?w' = (sessions w)(start_id args w \<mapsto> next_addr w)"
    "session_mem ?w' (next_addr w) = \<lparr>ID = start_id args w,
           Problem = st_Problem args, Thoughts = nil_slice,
           CurrentThought = 0,
           EstimatedTotal = (if st_EstimatedSteps args = 0 then 5 else st_EstimatedSteps args),
           Status = ''active'', SessionCreated = clock w (ticks w),
           LastActivity = clock w (Suc (ticks w)), Branches = nil_slice, Version = 0\<rparr>"
    by (simp_all add: e)
  have ag: "agree_below (next_addr w) w ?w'"
    by (simp add: e agree_below_def)
  have old: "\<And>s p. sessions w s = Some p \<Longrightarrow> cells_in 0 (next_addr ?w') ?w' p \<and> view ?w' p = view w p"
  proof -
    fix s p assume "sessions w s = Some p"
    then have cp: "cells_in 0 (next_addr w) w p" using wf by (simp add: wf_world_def)
    note g = cells_in_agree[OF cp ag]
    then show "cells_in 0 (next_addr ?w') ?w' p \<and> view ?w' p = view w p"
      by (auto simp add: f(1) intro: cells_in_mono)
  qed
  then show "\<forall>s p. sessions w s = Some p \<longrightarrow> view ?w' p = view w p" by blast
  have new: "cells_in 0 (next_addr ?w') ?w' (next_addr w)"
    using wf unfolding cells_in_def f
    by (simp add: wf_world_def slice_ok_def nil_slice_def thought_ptrs_def)
  show "wf_world ?w'"
    unfolding wf_world_def
  proof (intro conjI allI impI)
    show "0 < next_addr ?w'" by (simp add: f)
  next
    fix s p assume sp: "sessions ?w' s = Some p"
    show "cells_in 0 (next_addr ?w') ?w' p"
    proof (cases "s = start_id args w")
      case True
      then have "p = next_addr w" using sp by (simp add: f)
      then show ?thesis using new by simp
    next
      case False
      then have "sessions w s = Some p" using sp by (simp add: f)
      then show ?thesis using old by blast
    qed
  qed
qed

lemma SessionSnapshot_wf:
  assumes wf: "wf_world w"
  shows "wf_world (snd (SessionSnapshot sid w))"
    and "sessions (snd (SessionSnapshot sid w)) = sessions w"
    and "\<forall>s p. sessions w s = Some p \<longrightarrow> view (snd (SessionSnapshot sid w)) p = view w p"
proof -
  let ?w' = "snd (SessionSnapshot sid w)"
  have "wf_world ?w' \<and> sessions ?w' = sessions w
        \<and> (\<forall>s p. sessions w s = Some p \<longrightarrow> view ?w' p = view w p)"
  proof (cases "sessions w sid")
    case None
    then have "?w' = w" by (simp add: SessionSnapshot_def)
    then show ?thesis using wf by simp
  next
    case (Some cur)
    obtain c w1 where cl: "clone cur w = (c, w1)" by (cases "clone cur w") auto
    have e: "?w' = w1" using Some cl by (simp add: SessionSnapshot_def)
    have cc: "cells_in 0 (next_addr w) w cur" using wf Some by (simp add: wf_world_def)
    note k = clone_spec[OF cc cl]
    have s1: "sessions w1 = sessions w" "next_addr w \<le> next_addr w1"
      using k(5) by (simp_all add: heap_only_def)
    have old: "\<And>s p. sessions w s = Some p \<Longrightarrow> cells_in 0 (next_addr w1) w1 p \<and> view w1 p = view w p"
    proof -
      fix s p assume "sessions w s = Some p"
      then have cp: "cells_in 0 (next_addr w) w p" using wf by (simp add: wf_world_def)
      note g = cells_in_agree[OF cp k(4)]
      with s1 show "cells_in 0 (next_addr w1) w1 p \<and> view w1 p = view w p"
        by (auto intro: cells_in_mono)
    qed
    have "wf_world w1"
      unfolding wf_world_def using wf s1 old by (auto simp add: wf_world_def)
    with old s1 show ?thesis unfolding e by blast
  qed
  then show "wf_world ?w'" "sessions ?w' = sessions w"
    "\<forall>s p. sessions w s = Some p \<longrightarrow> view ?w' p = view w p" by blast+
qed

lemma wf_example_world: "wf_world example_world"
  by (simp add: wf_world_def example_world_def cells_in_def slice_ok_def thought_ptrs_def
      nil_slice_def)

lemma view_example_world:
  "view example_world (Suc 0) =
     \<lparr>ID = ''s'', Problem = ''plan a trip'',
      Thoughts = [\<lparr>Index = 1, Content = ''a'', Created = 1002, Revised = False, ParentIndex = 0\<rparr>,
                  \<lparr>Index = 2, Content = ''b'', Created = 1004, Revised = False, ParentIndex = 0\<rparr>],
      CurrentThought = 2, EstimatedTotal = 3, Status = ''active'', SessionCreated = 1000,
      LastActivity = 1005, Branches = [], Version = 2\<rparr>"
  by (simp add: view_def Let_def example_world_def thoughts_at_def thought_ptrs_def
      branch_ids_def nil_slice_def)

section \<open>Revising a step\<close>

text \<open>
  C4. Revising step \<open>stepNumber\<close> of a stored session (whose number of thoughts fits a Go
  \<^verbatim>\<open>int\<close>): when \<open>1 \<le> stepNumber \<le> len(thoughts)\<close> the call succeeds and the stored session is
  the old one with the content of exactly that thought replaced by the supplied text, its
  \<open>Revised\<close> flag set, \<open>LastActivity\<close> set to the clock reading and the version one higher;
  otherwise the call fails with the invalid-step error and the store's map and the stored
  session, its version included, are what they were.
\<close>

theorem ContinueThinking_revise_correct:
  assumes "wf_world w"
    and "sessions w (ct_SessionID args) = Some cur"
    and "ct_ReviseStep args = Some stepNumber"
    and "length (Thoughts (view w cur)) < 9223372036854775808"
  shows "\<exists>res w'. ContinueThinking args w = Some (res, w') \<and>
     (if 1 \<le> sint stepNumber \<and> sint stepNumber \<le> int (length (Thoughts (view w cur)))
      then \<exists>reply u. res = Inr reply
             \<and> sessions w' = (sessions w)(ct_SessionID args \<mapsto> u)
             \<and> view w' u = (view w cur)
                 \<lparr>Thoughts := (Thoughts (view w cur))
                    [nat (sint stepNumber) - 1 :=
                       (Thoughts (view w cur) ! (nat (sint stepNumber) - 1))
                         \<lparr>Content := ct_Thought args, Revised := True\<rparr>],
                  LastActivity := clock w (ticks w),
                  Version := Version (view w cur) + 1\<rparr>
      else res = Inl (InvalidStepNumber stepNumber)
             \<and> sessions w' = sessions w \<and> view w' cur = view w cur)"
proof (cases "1 \<le> sint stepNumber \<and> sint stepNumber \<le> int (length (Thoughts (view w cur)))")
  case True
  then have ok: "0 \<le> sint (stepNumber - 1)"
    "sint (stepNumber - 1) < int (length (Thoughts (view w cur)))"
    using step_in_range_iff[OF assms(4), of stepNumber] by simp_all
  have "- 9223372036854775808 < sint stepNumber" using True by linarith
  then have "nat (sint (stepNumber - 1)) = nat (sint stepNumber) - 1"
    by (simp add: sint_pred nat_diff_distrib')
  with revise_valid[OF assms(1) assms(3) assms(2) ok] True show ?thesis
    by auto
next
  case False
  then have "sint (stepNumber - 1) < 0
      \<or> int (length (Thoughts (view w cur))) \<le> sint (stepNumber - 1)"
    using step_in_range_iff[OF assms(4), of stepNumber] by linarith
  from revise_invalid[OF assms(1) assms(3) assms(2) this] False assms(2) show ?thesis
    by auto
qed

theorem ContinueThinking_revise_correct_witness:
  "wf_world example_world \<and> sessions example_world ''s'' = Some 1
   \<and> length (Thoughts (view example_world 1)) < 9223372036854775808
   \<and> (\<exists>reply u w'. ContinueThinking (revise_args ''s'' 1 ''x'') example_world = Some (Inr reply, w')
         \<and> sessions w' ''s'' = Some u
         \<and> Thoughts (view w' u) =
             [\<lparr>Index = 1, Content = ''x'', Created = 1002, Revised = True, ParentIndex = 0\<rparr>,
              \<lparr>Index = 2, Content = ''b'', Created = 1004, Revised = False, ParentIndex = 0\<rparr>]
         \<and> LastActivity (view w' u) = 1006 \<and> Version (view w' u) = 3)
   \<and> (\<exists>w'. ContinueThinking (revise_args ''s'' 0 ''x'') example_world
              = Some (Inl (InvalidStepNumber 0), w')
         \<and> sessions w' = sessions example_world \<and> view w' 1 = view example_world 1)
   \<and> (\<exists>w'. ContinueThinking (revise_args ''s'' 3 ''x'') example_world
              = Some (Inl (InvalidStepNumber 3), w')
         \<and> sessions w' = sessions example_world \<and> view w' 1 = view example_world 1)"
proof -
  have s: "sessions example_world ''s'' = Some 1" by (simp add: example_world_def)
  have l: "length (Thoughts (view example_world 1)) < 9223372036854775808"
    by (simp add: view_example_world)
  have e: "clock example_world (ticks example_world) = 1006" by (simp add: example_world_def)
  have a: "ct_SessionID (revise_args ''s'' n t) = ''s''" "ct_ReviseStep (revise_args ''s'' n t) = Some n"
    "ct_Thought (revise_args ''s'' n t) = t" for n t
    by (simp_all add: revise_args_def)
  from ContinueThinking_revise_correct[of example_world "revise_args ''s'' 1 ''x''" 1 1]
  have 1: "\<exists>reply u w'. ContinueThinking (revise_args ''s'' 1 ''x'') example_world = Some (Inr reply, w')
         \<and> sessions w' ''s'' = Some u
         \<and> Thoughts (view w' u) =
             [\<lparr>Index = 1, Content = ''x'', Created = 1002, Revised = True, ParentIndex = 0\<rparr>,
              \<lparr>Index = 2, Content = ''b'', Created = 1004, Revised = False, ParentIndex = 0\<rparr>]
         \<and> LastActivity (view w' u) = 1006 \<and> Version (view w' u) = 3"
    using wf_example_world s l by (auto simp add: a e view_example_world)
  from ContinueThinking_revise_correct[of example_world "revise_args ''s'' 0 ''x''" 1 0]
  have 2: "\<exists>w'. ContinueThinking (revise_args ''s'' 0 ''x'') example_world
              = Some (Inl (InvalidStepNumber 0), w')
         \<and> sessions w' = sessions example_world \<and> view w' 1 = view example_world 1"
    using wf_example_world s l by (auto simp add: a)
  from ContinueThinking_revise_correct[of example_world "revise_args ''s'' 3 ''x''" 1 3]
  have 3: "\<exists>w'. ContinueThinking (revise_args ''s'' 3 ''x'') example_world
              = Some (Inl (InvalidStepNumber 3), w')
         \<and> sessions w' = sessions example_world \<and> view w' 1 = view example_world 1"
    using wf_example_world s l by (auto simp add: a view_example_world)
  from wf_example_world s l 1 2 3 show ?thesis by blast
qed

lemma wf_initial_world: "wf_world initial_world"
  by (simp add: wf_world_def initial_world_def)

lemma append_args_simps:
  "ct_SessionID (append_args sid t n e) = sid" "ct_Thought (append_args sid t n e) = t"
  "ct_NextNeeded (append_args sid t n e) = n" "ct_ReviseStep (append_args sid t n e) = None"
  "ct_CreateBranch (append_args sid t n e) = False"
  "ct_EstimatedTotal (append_args sid t n e) = e"
  by (simp_all add: append_args_def)

section \<open>Adding a thought\<close>

text \<open>
  C5 as stated does not hold for a session that is already completed: start a session,
  add a thought with \<^verbatim>\<open>nextNeeded = false\<close> (the session is completed), then add a thought
  with \<^verbatim>\<open>nextNeeded = true\<close>. The caller did not signal the end, and the status is
  \<^verbatim>\<open>completed\<close>, not \<^verbatim>\<open>active\<close>.
\<close>

theorem ContinueThinking_status_counterexample:
  "\<exists>r1 w1 r2 w2 p.
     ContinueThinking (append_args ''s'' ''book flight'' (Some False) 0)
       (snd (StartThinking \<lparr>st_Problem = ''plan a trip'', st_SessionID = ''s'',
                            st_EstimatedSteps = 3\<rparr> initial_world)) = Some (r1, w1)
     \<and> ContinueThinking (append_args ''s'' ''pack'' (Some True) 0) w1 = Some (r2, w2)
     \<and> sessions w2 ''s'' = Some p
     \<and> Status (view w2 p) = ''completed'' \<and> Status (view w2 p) \<noteq> ''active''"
proof -
  let ?s = "\<lparr>st_Problem = ''plan a trip'', st_SessionID = ''s'', st_EstimatedSteps = 3\<rparr>"
  let ?w0 = "snd (StartThinking ?s initial_world)"
  have wf0: "wf_world ?w0" by (rule StartThinking_wf(1)[OF wf_initial_world])
  from StartThinking_eq[of ?s initial_world]
  have s0: "sessions ?w0 ''s'' = Some (next_addr initial_world)" by auto
  let ?a1 = "append_args ''s'' ''book flight'' (Some False) 0"
  let ?a2 = "append_args ''s'' ''pack'' (Some True) 0"
  have c0: "sessions ?w0 (ct_SessionID ?a1) = Some (next_addr initial_world)"
    using s0 by (simp add: append_args_simps)
  from append_ok[OF wf0 _ _ c0]
  obtain r1 u1 w1 where 1: "ContinueThinking ?a1 ?w0 = Some (Inr r1, w1)"
    and m1: "sessions w1 = (sessions ?w0)(''s'' \<mapsto> u1)"
    and v1: "Status (view w1 u1) = ''completed''"
    and wf1: "wf_world w1"
    by (auto simp add: append_args_simps)
  have c1: "sessions w1 (ct_SessionID ?a2) = Some u1"
    using m1 by (simp add: append_args_simps)
  from append_ok[OF wf1 _ _ c1]
  obtain r2 u2 w2 where 2: "ContinueThinking ?a2 w1 = Some (Inr r2, w2)"
    and m2: "sessions w2 = (sessions w1)(''s'' \<mapsto> u2)"
    and v2: "Status (view w2 u2) = Status (view w1 u1)"
    by (auto simp add: append_args_simps)
  have "sessions w2 ''s'' = Some u2" using m2 by simp
  moreover have "Status (view w2 u2) = ''completed''" using v1 v2 by simp
  ultimately show ?thesis using 1 2 by fastforce
qed

text \<open>
  C5, amended. A call that adds a thought to a stored session succeeds. The stored session
  is the old one with a new thought appended whose index is the old number of thoughts plus
  one (content the supplied text, the clock reading as creation time, not revised), with
  \<open>CurrentThought\<close> set to that index, \<open>LastActivity\<close> set to the next clock reading,
  \<open>EstimatedTotal\<close> replaced when the supplied value is positive, the version one
  higher, and status \<^verbatim>\<open>completed\<close> when \<^verbatim>\<open>nextNeeded\<close> is explicitly false; otherwise the
  status is left as it was (an active session stays active, a completed one stays
  completed).
\<close>

theorem ContinueThinking_append_postcondition:
  assumes "wf_world w"
    and "sessions w (ct_SessionID args) = Some cur"
    and "ct_ReviseStep args = None" and "\<not> ct_CreateBranch args"
  shows "\<exists>reply u w'. ContinueThinking args w = Some (Inr reply, w')
           \<and> sessions w' = (sessions w)(ct_SessionID args \<mapsto> u)
           \<and> view w' u = (view w cur)
               \<lparr>Thoughts := Thoughts (view w cur) @
                  [\<lparr>Index = of_nat (length (Thoughts (view w cur))) + 1,
                    Content = ct_Thought args, Created = clock w (ticks w),
                    Revised = False, ParentIndex = 0\<rparr>],
                CurrentThought := of_nat (length (Thoughts (view w cur))) + 1,
                EstimatedTotal := (if 0 < sint (ct_EstimatedTotal args)
                                   then ct_EstimatedTotal args
                                   else EstimatedTotal (view w cur)),
                Status := (if ct_NextNeeded args = Some False then ''completed''
                           else Status (view w cur)),
                LastActivity := clock w (Suc (ticks w)),
                Version := Version (view w cur) + 1\<rparr>"
  using append_ok[OF assms(1) assms(3) assms(4) assms(2)] by blast

theorem ContinueThinking_append_postcondition_witness:
  "wf_world example_world \<and> sessions example_world ''s'' = Some 1
   \<and> (\<exists>reply u w'.
         ContinueThinking (append_args ''s'' ''book flight'' (Some False) 7) example_world
           = Some (Inr reply, w')
         \<and> sessions w' ''s'' = Some u
         \<and> view w' u =
             \<lparr>ID = ''s'', Problem = ''plan a trip'',
              Thoughts =
                [\<lparr>Index = 1, Content = ''a'', Created = 1002, Revised = False, ParentIndex = 0\<rparr>,
                 \<lparr>Index = 2, Content = ''b'', Created = 1004, Revised = False, ParentIndex = 0\<rparr>,
                 \<lparr>Index = 3, Content = ''book flight'', Created = 1006, Revised = False,
                   ParentIndex = 0\<rparr>],
              CurrentThought = 3, EstimatedTotal = 7, Status = ''completed'',
              SessionCreated = 1000, LastActivity = 1007, Branches = [], Version = 3\<rparr>)"
proof -
  have s: "sessions example_world ''s'' = Some 1" by (simp add: example_world_def)
  have e: "clock example_world (ticks example_world) = 1006"
    "clock example_world (Suc (ticks example_world)) = 1007" by (simp_all add: example_world_def)
  from ContinueThinking_append_postcondition
         [of example_world "append_args ''s'' ''book flight'' (Some False) 7" 1]
  have "\<exists>reply u w'.
         ContinueThinking (append_args ''s'' ''book flight'' (Some False) 7) example_world
           = Some (Inr reply, w')
         \<and> sessions w' ''s'' = Some u
         \<and> view w' u =
             \<lparr>ID = ''s'', Problem = ''plan a trip'',
              Thoughts =
                [\<lparr>Index = 1, Content = ''a'', Created = 1002, Revised = False, ParentIndex = 0\<rparr>,
                 \<lparr>Index = 2, Content = ''b'', Created = 1004, Revised = False, ParentIndex = 0\<rparr>,
                 \<lparr>Index = 3, Content = ''book flight'', Created = 1006, Revised = False,
                   ParentIndex = 0\<rparr>],
              CurrentThought = 3, EstimatedTotal = 7, Status = ''completed'',
              SessionCreated = 1000, LastActivity = 1007, Branches = [], Version = 3\<rparr>"
    using wf_example_world s by (auto simp add: append_args_simps e view_example_world)
  with wf_example_world s show ?thesis by blast
qed

section \<open>Compare-and-swap\<close>

text \<open>
  C3. Take a call of \<^verbatim>\<open>CompareAndSwap\<close> on a stored session with a closure that keeps to
  the copy it is given, and let \<open>f c w1 = (res, w2)\<close> be the closure's run on the copy.
  If the closure fails, the call returns that error after this one pass, in the very
  state the closure left (the call itself writes nothing), the store's map is the old
  one and every stored session, its version included, reads as before. If the closure
  succeeds, the call returns after this one pass with the map changed at this id only, to
  the closure's result with the old version plus one, and every session object that was
  stored before still reads as before.
\<close>

theorem CompareAndSwap_all_or_nothing:
  assumes "wf_world w" and "confined f"
    and "sessions w sid = Some cur"
    and "clone cur w = (c, w1)"
    and "f c w1 = (res, w2)"
  shows "case res of
           Inl err \<Rightarrow>
             CompareAndSwap sid f w = Some (Inl err, w2)
             \<and> sessions w2 = sessions w
             \<and> (\<forall>s p. sessions w s = Some p \<longrightarrow> view w2 p = view w p)
         | Inr (u, r) \<Rightarrow>
             (\<exists>w3. CompareAndSwap sid f w = Some (Inr r, w3)
                \<and> sessions w3 = (sessions w)(sid \<mapsto> u)
                \<and> view w3 u = (view w2 u)\<lparr>Version := Version (view w cur) + 1\<rparr>
                \<and> (\<forall>s p. sessions w s = Some p \<longrightarrow> view w3 p = view w p))"
proof (cases res)
  case (Inl err)
  then have run: "f c w1 = (Inl err, w2)" using assms(5) by simp
  have "CompareAndSwap sid f w = Some (Inl err, w2)"
    by (rule CompareAndSwap_fail[where f=f, OF assms(3) assms(4) run])
  with CompareAndSwap_fail_post(2,3)[OF assms(1) assms(2) assms(3) assms(4) run] Inl
  show ?thesis by simp
next
  case (Inr ur)
  obtain u r where ur: "ur = (u, r)" by (cases ur)
  have run: "f c w1 = (Inr (u, r), w2)" using assms(5) Inr ur by simp
  define w3 where "w3 = w2\<lparr>session_mem := (session_mem w2)
      (u := (session_mem w2 u)\<lparr>Version := Version (session_mem w cur) + 1\<rparr>),
      sessions := (sessions w)(sid \<mapsto> u)\<rparr>"
  have "CompareAndSwap sid f w = Some (Inr r, w3)"
    unfolding w3_def by (rule CompareAndSwap_commit[OF assms(1) assms(2) assms(3) assms(4) run])
  moreover have "sessions w3 = (sessions w)(sid \<mapsto> u)" by (simp add: w3_def)
  moreover note CompareAndSwap_commit_post(2,3)[OF assms(1) assms(2) assms(3) assms(4) run w3_def]
  ultimately show ?thesis using Inr ur by auto
qed

theorem CompareAndSwap_all_or_nothing_witness:
  "wf_world example_world \<and> confined (reviseFunc (revise_args ''s'' 3 ''x'') 3)
   \<and> sessions example_world ''s'' = Some 1
   \<and> (\<exists>c w1. clone 1 example_world = (c, w1)
         \<and> reviseFunc (revise_args ''s'' 3 ''x'') 3 c w1 = (Inl (InvalidStepNumber 3), w1)
         \<and> CompareAndSwap ''s'' (reviseFunc (revise_args ''s'' 3 ''x'') 3) example_world
             = Some (Inl (InvalidStepNumber 3), w1)
         \<and> sessions w1 = sessions example_world
         \<and> view w1 1 = view example_world 1)"
proof -
  let ?f = "reviseFunc (revise_args ''s'' 3 ''x'') 3"
  have s: "sessions example_world ''s'' = Some 1" by (simp add: example_world_def)
  obtain c w1 where cl: "clone 1 example_world = (c, w1)" by (cases "clone 1 example_world") auto
  have cc: "cells_in 0 (next_addr example_world) example_world 1"
    using wf_example_world s by (simp add: wf_world_def)
  note k = clone_spec[OF cc cl]
  have c1: "cells_in c (next_addr w1) w1 c" using k(3) by (simp add: k(1))
  have bad: "sint (3 - 1 :: go_int) < 0 \<or> int (length (Thoughts (view w1 c))) \<le> sint (3 - 1 :: go_int)"
    by (simp add: k(2) view_example_world)
  have run: "?f c w1 = (Inl (InvalidStepNumber 3), w1)"
    by (rule reviseFunc_invalid[OF c1 bad])
  from CompareAndSwap_all_or_nothing[OF wf_example_world confined_reviseFunc s cl run]
  have "CompareAndSwap ''s'' ?f example_world = Some (Inl (InvalidStepNumber 3), w1)
        \<and> sessions w1 = sessions example_world \<and> view w1 1 = view example_world 1"
    using s by simp
  with wf_example_world confined_reviseFunc s cl run show ?thesis by blast
qed

lemma revise_ignores:
  assumes "ct_ReviseStep args = Some reviseStep"
  shows "ContinueThinking
           (args\<lparr>ct_CreateBranch := b, ct_NextNeeded := n, ct_EstimatedTotal := e\<rparr>) w
         = ContinueThinking args w"
proof -
  have "reviseFunc (args\<lparr>ct_CreateBranch := b, ct_NextNeeded := n, ct_EstimatedTotal := e\<rparr>)
          reviseStep = reviseFunc args reviseStep"
    by (intro ext) (simp add: reviseFunc_def Let_def split_def)
  then show ?thesis using assms
    by (simp add: ContinueThinking_def Let_def split: option.splits sum.splits prod.splits)
qed

lemma branch_ignores:
  assumes "ct_ReviseStep args = None" "ct_CreateBranch args"
  shows "ContinueThinking
           (args\<lparr>ct_Thought := t, ct_NextNeeded := n, ct_EstimatedTotal := e\<rparr>) w
         = ContinueThinking args w"
proof -
  have "branchFunc (args\<lparr>ct_Thought := t, ct_NextNeeded := n, ct_EstimatedTotal := e\<rparr>)
          = branchFunc args"
    by (intro ext) (simp add: branchFunc_def Let_def split_def)
  then show ?thesis using assms
    by (simp add: ContinueThinking_def Let_def split: option.splits sum.splits prod.splits)
qed

lemma revise_only:
  assumes wf: "wf_world w"
    and rs: "ct_ReviseStep args = Some reviseStep"
    and cur: "sessions w (ct_SessionID args) = Some cur"
  shows "\<exists>res w' u. ContinueThinking args w = Some (res, w')
           \<and> sessions w' (ct_SessionID args) = Some u
           \<and> dom (sessions w') = dom (sessions w)
           \<and> length (Thoughts (view w' u)) = length (Thoughts (view w cur))
           \<and> Branches (view w' u) = Branches (view w cur)
           \<and> Status (view w' u) = Status (view w cur)
           \<and> EstimatedTotal (view w' u) = EstimatedTotal (view w cur)"
proof (cases "sint (reviseStep - 1) < 0
              \<or> int (length (Thoughts (view w cur))) \<le> sint (reviseStep - 1)")
  case True
  from revise_invalid[OF wf rs cur True] cur show ?thesis by auto
next
  case False
  then have ok: "0 \<le> sint (reviseStep - 1)"
    "sint (reviseStep - 1) < int (length (Thoughts (view w cur)))" by simp_all
  from revise_valid[OF wf rs cur ok]
  obtain reply u w' where 1: "ContinueThinking args w = Some (Inr reply, w')"
    and 2: "sessions w' = (sessions w)(ct_SessionID args \<mapsto> u)"
    and 3: "view w' u = (view w cur)
               \<lparr>Thoughts := (Thoughts (view w cur))
                  [nat (sint (reviseStep - 1)) :=
                     (Thoughts (view w cur) ! nat (sint (reviseStep - 1)))
                       \<lparr>Content := ct_Thought args, Revised := True\<rparr>],
                LastActivity := clock w (ticks w),
                Version := Version (view w cur) + 1\<rparr>"
    by blast
  have "dom (sessions w') = dom (sessions w)" using 2 cur by auto
  with 1 2 3 show ?thesis by simp
qed

lemma revise_step_check:
  assumes "wf_world w"
    and "sessions w (ct_SessionID args) = Some cur"
    and "ct_ReviseStep args = Some stepNumber"
    and "length (Thoughts (view w cur)) < 9223372036854775808"
  shows "\<exists>res w'. ContinueThinking args w = Some (res, w') \<and>
     (if 1 \<le> sint stepNumber \<and> sint stepNumber \<le> int (length (Thoughts (view w cur)))
      then \<exists>reply u. res = Inr reply
             \<and> sessions w' = (sessions w)(ct_SessionID args \<mapsto> u)
             \<and> view w' u = (view w cur)
                 \<lparr>Thoughts := (Thoughts (view w cur))
                    [nat (sint stepNumber) - 1 :=
                       (Thoughts (view w cur) ! (nat (sint stepNumber) - 1))
                         \<lparr>Content := ct_Thought args, Revised := True\<rparr>],
                  LastActivity := clock w (ticks w),
                  Version := Version (view w cur) + 1\<rparr>
      else res = Inl (InvalidStepNumber stepNumber)
             \<and> sessions w' = sessions w \<and> view w' cur = view w cur)"
proof (cases "1 \<le> sint stepNumber \<and> sint stepNumber \<le> int (length (Thoughts (view w cur)))")
  case True
  then have ok: "0 \<le> sint (stepNumber - 1)"
    "sint (stepNumber - 1) < int (length (Thoughts (view w cur)))"
    using step_in_range_iff[OF assms(4), of stepNumber] by simp_all
  have "- 9223372036854775808 < sint stepNumber" using True by linarith
  then have "nat (sint (stepNumber - 1)) = nat (sint stepNumber) - 1"
    by (simp add: sint_pred nat_diff_distrib')
  with revise_valid[OF assms(1) assms(3) assms(2) ok] True show ?thesis
    by auto
next
  case False
  then have "sint (stepNumber - 1) < 0
      \<or> int (length (Thoughts (view w cur))) \<le> sint (stepNumber - 1)"
    using step_in_range_iff[OF assms(4), of stepNumber] by linarith
  from revise_invalid[OF assms(1) assms(3) assms(2) this] False assms(2) show ?thesis
    by auto
qed

section \<open>The three modes of \<^verbatim>\<open>ContinueThinking\<close>\<close>

text \<open>
  C10. On a stored session, a call with \<^verbatim>\<open>reviseStep\<close> set gives the same result (reply,
  error and state) whatever \<^verbatim>\<open>createBranch\<close>, \<^verbatim>\<open>nextNeeded\<close> and \<^verbatim>\<open>estimatedTotal\<close> are, and
  what it does is the revision: when \<open>1 \<le> stepNumber \<le> len(thoughts)\<close> it succeeds and the
  stored session is the old one with the content of exactly that thought replaced by the
  supplied text, its \<open>Revised\<close> flag set, \<open>LastActivity\<close> set to the clock reading and the
  version one higher; otherwise it fails with the invalid-step error and the map and the
  stored session are what they were (the number of thoughts fitting a Go \<^verbatim>\<open>int\<close>). In both
  cases it registers no session, and the session keeps its number of thoughts, its branch
  list, its status and its estimate. A call with \<^verbatim>\<open>reviseStep\<close> unset and \<^verbatim>\<open>createBranch\<close>
  true gives the same result whatever \<^verbatim>\<open>thought\<close>, \<^verbatim>\<open>nextNeeded\<close> and \<^verbatim>\<open>estimatedTotal\<close> are; it
  registers the branch session and nothing else, and the parent and the branch both hold
  exactly the parent's old thoughts, the parent with its old status and estimate. Only
  a call with neither adds a thought.
\<close>

theorem ContinueThinking_mode_precedence:
  assumes "wf_world w" and "sessions w (ct_SessionID args) = Some cur"
  shows "case ct_ReviseStep args of
           Some stepNumber \<Rightarrow>
           (\<forall>b n e. ContinueThinking
                (args\<lparr>ct_CreateBranch := b, ct_NextNeeded := n, ct_EstimatedTotal := e\<rparr>) w
              = ContinueThinking args w)
           \<and> (\<exists>res w' u. ContinueThinking args w = Some (res, w')
                 \<and> sessions w' (ct_SessionID args) = Some u
                 \<and> dom (sessions w') = dom (sessions w)
                 \<and> length (Thoughts (view w' u)) = length (Thoughts (view w cur))
                 \<and> Branches (view w' u) = Branches (view w cur)
                 \<and> Status (view w' u) = Status (view w cur)
                 \<and> EstimatedTotal (view w' u) = EstimatedTotal (view w cur)
                 \<and> (length (Thoughts (view w cur)) < 9223372036854775808 \<longrightarrow>
                    (if 1 \<le> sint stepNumber
                        \<and> sint stepNumber \<le> int (length (Thoughts (view w cur)))
                     then (\<exists>reply. res = Inr reply)
                        \<and> sessions w' = (sessions w)(ct_SessionID args \<mapsto> u)
                        \<and> view w' u = (view w cur)
                            \<lparr>Thoughts := (Thoughts (view w cur))
                               [nat (sint stepNumber) - 1 :=
                                  (Thoughts (view w cur) ! (nat (sint stepNumber) - 1))
                                    \<lparr>Content := ct_Thought args, Revised := True\<rparr>],
                             LastActivity := clock w (ticks w),
                             Version := Version (view w cur) + 1\<rparr>
                     else res = Inl (InvalidStepNumber stepNumber)
                        \<and> sessions w' = sessions w \<and> u = cur
                        \<and> view w' cur = view w cur)))
         | None \<Rightarrow>
           if ct_CreateBranch args then
           (\<forall>t n e. ContinueThinking
                (args\<lparr>ct_Thought := t, ct_NextNeeded := n, ct_EstimatedTotal := e\<rparr>) w
              = ContinueThinking args w)
           \<and> (\<exists>reply w' u b. ContinueThinking args w = Some (Inr reply, w')
                 \<and> sessions w' = (sessions w)
                      (ct_SessionID args \<mapsto> u,
                       ct_SessionID args @ ''_branch_''
                         @ format_d (of_nat (length (Branches (view w cur))) + 1) \<mapsto> b)
                 \<and> Thoughts (view w' u) = Thoughts (view w cur)
                 \<and> Thoughts (view w' b) = Thoughts (view w cur)
                 \<and> Status (view w' u) = Status (view w cur)
                 \<and> EstimatedTotal (view w' u) = EstimatedTotal (view w cur))
         else
           (\<exists>reply w' u. ContinueThinking args w = Some (Inr reply, w')
                 \<and> sessions w' = (sessions w)(ct_SessionID args \<mapsto> u)
                 \<and> length (Thoughts (view w' u)) = Suc (length (Thoughts (view w cur)))
                 \<and> Branches (view w' u) = Branches (view w cur))"
proof (cases "ct_ReviseStep args")
  case (Some stepNumber)
  let ?n = "length (Thoughts (view w cur))"
  let ?sid = "ct_SessionID args"
  from revise_only[OF assms(1) Some assms(2)]
  obtain res w' u where r: "ContinueThinking args w = Some (res, w')"
    "sessions w' ?sid = Some u" "dom (sessions w') = dom (sessions w)"
    "length (Thoughts (view w' u)) = ?n" "Branches (view w' u) = Branches (view w cur)"
    "Status (view w' u) = Status (view w cur)"
    "EstimatedTotal (view w' u) = EstimatedTotal (view w cur)"
    by blast
  have chk: "if 1 \<le> sint stepNumber \<and> sint stepNumber \<le> int ?n
             then (\<exists>reply. res = Inr reply)
                \<and> sessions w' = (sessions w)(?sid \<mapsto> u)
                \<and> view w' u = (view w cur)
                    \<lparr>Thoughts := (Thoughts (view w cur))
                       [nat (sint stepNumber) - 1 :=
                          (Thoughts (view w cur) ! (nat (sint stepNumber) - 1))
                            \<lparr>Content := ct_Thought args, Revised := True\<rparr>],
                     LastActivity := clock w (ticks w),
                     Version := Version (view w cur) + 1\<rparr>
             else res = Inl (InvalidStepNumber stepNumber)
                \<and> sessions w' = sessions w \<and> u = cur \<and> view w' cur = view w cur"
    if len: "?n < 9223372036854775808"
  proof (cases "1 \<le> sint stepNumber \<and> sint stepNumber \<le> int ?n")
    case True
    from revise_step_check[OF assms(1) assms(2) Some len] True r(1)
    obtain reply u' where q: "res = Inr reply" "sessions w' = (sessions w)(?sid \<mapsto> u')"
      "view w' u' = (view w cur)
                    \<lparr>Thoughts := (Thoughts (view w cur))
                       [nat (sint stepNumber) - 1 :=
                          (Thoughts (view w cur) ! (nat (sint stepNumber) - 1))
                            \<lparr>Content := ct_Thought args, Revised := True\<rparr>],
                     LastActivity := clock w (ticks w),
                     Version := Version (view w cur) + 1\<rparr>"
      by auto
    have "u' = u" using q(2) r(2) by simp
    with q True show ?thesis by simp
  next
    case False
    from revise_step_check[OF assms(1) assms(2) Some len] False r(1)
    have q: "res = Inl (InvalidStepNumber stepNumber)" "sessions w' = sessions w"
      "view w' cur = view w cur"
      by auto
    have "u = cur" using q(2) r(2) assms(2) by simp
    with q False show ?thesis by simp
  qed
  have "\<exists>res w' u. ContinueThinking args w = Some (res, w')
                 \<and> sessions w' ?sid = Some u
                 \<and> dom (sessions w') = dom (sessions w)
                 \<and> length (Thoughts (view w' u)) = ?n
                 \<and> Branches (view w' u) = Branches (view w cur)
                 \<and> Status (view w' u) = Status (view w cur)
                 \<and> EstimatedTotal (view w' u) = EstimatedTotal (view w cur)
                 \<and> (?n < 9223372036854775808 \<longrightarrow>
                    (if 1 \<le> sint stepNumber \<and> sint stepNumber \<le> int ?n
                     then (\<exists>reply. res = Inr reply)
                        \<and> sessions w' = (sessions w)(?sid \<mapsto> u)
                        \<and> view w' u = (view w cur)
                            \<lparr>Thoughts := (Thoughts (view w cur))
                               [nat (sint stepNumber) - 1 :=
                                  (Thoughts (view w cur) ! (nat (sint stepNumber) - 1))
                                    \<lparr>Content := ct_Thought args, Revised := True\<rparr>],
                             LastActivity := clock w (ticks w),
                             Version := Version (view w cur) + 1\<rparr>
                     else res = Inl (InvalidStepNumber stepNumber)
                        \<and> sessions w' = sessions w \<and> u = cur
                        \<and> view w' cur = view w cur))"
    using r chk by (intro exI[of _ res] exI[of _ w'] exI[of _ u] conjI impI)
  with revise_ignores[OF Some] Some show ?thesis by simp
next
  case None
  show ?thesis
  proof (cases "ct_CreateBranch args")
    case True
    from branch_ok[OF assms(1) None True assms(2)]
    obtain reply u b w' where "ContinueThinking args w = Some (Inr reply, w')"
      "sessions w' = (sessions w)
                      (ct_SessionID args \<mapsto> u,
                       ct_SessionID args @ ''_branch_''
                         @ format_d (of_nat (length (Branches (view w cur))) + 1) \<mapsto> b)"
      "Thoughts (view w' u) = Thoughts (view w cur)"
      "Thoughts (view w' b) = Thoughts (view w cur)"
      "Status (view w' u) = Status (view w cur)"
      "EstimatedTotal (view w' u) = EstimatedTotal (view w cur)"
      by fastforce
    then have "\<exists>reply w' u b. ContinueThinking args w = Some (Inr reply, w')
                 \<and> sessions w' = (sessions w)
                      (ct_SessionID args \<mapsto> u,
                       ct_SessionID args @ ''_branch_''
                         @ format_d (of_nat (length (Branches (view w cur))) + 1) \<mapsto> b)
                 \<and> Thoughts (view w' u) = Thoughts (view w cur)
                 \<and> Thoughts (view w' b) = Thoughts (view w cur)
                 \<and> Status (view w' u) = Status (view w cur)
                 \<and> EstimatedTotal (view w' u) = EstimatedTotal (view w cur)"
      by blast
    with branch_ignores[OF None True] None True show ?thesis by simp
  next
    case False
    from append_ok[OF assms(1) None False assms(2)]
    obtain reply u w' where "ContinueThinking args w = Some (Inr reply, w')"
      "sessions w' = (sessions w)(ct_SessionID args \<mapsto> u)"
      "length (Thoughts (view w' u)) = Suc (length (Thoughts (view w cur)))"
      "Branches (view w' u) = Branches (view w cur)"
      by fastforce
    then have "\<exists>reply w' u. ContinueThinking args w = Some (Inr reply, w')
                 \<and> sessions w' = (sessions w)(ct_SessionID args \<mapsto> u)
                 \<and> length (Thoughts (view w' u)) = Suc (length (Thoughts (view w cur)))
                 \<and> Branches (view w' u) = Branches (view w cur)"
      by blast
    with None False show ?thesis by simp
  qed
qed

lemma format_d_1: "format_d 1 = ''1''"
  by (simp add: format_d_def format_nat.simps digit_char_def)

theorem ContinueThinking_mode_precedence_witness:
  "wf_world example_world \<and> sessions example_world ''s'' = Some 1
   \<and> (\<forall>b n e. ContinueThinking
          \<lparr>ct_SessionID = ''s'', ct_Thought = ''x'', ct_NextNeeded = n,
           ct_ReviseStep = Some 1, ct_CreateBranch = b, ct_EstimatedTotal = e\<rparr> example_world
        = ContinueThinking
          \<lparr>ct_SessionID = ''s'', ct_Thought = ''x'', ct_NextNeeded = Some False,
           ct_ReviseStep = Some 1, ct_CreateBranch = True, ct_EstimatedTotal = 9\<rparr> example_world)
   \<and> (\<exists>reply w' u. ContinueThinking
          \<lparr>ct_SessionID = ''s'', ct_Thought = ''x'', ct_NextNeeded = Some False,
           ct_ReviseStep = Some 1, ct_CreateBranch = True, ct_EstimatedTotal = 9\<rparr> example_world
            = Some (Inr reply, w')
         \<and> sessions w' = [''s'' \<mapsto> u]
         \<and> view w' u =
             \<lparr>ID = ''s'', Problem = ''plan a trip'',
              Thoughts =
                [\<lparr>Index = 1, Content = ''x'', Created = 1002, Revised = True, ParentIndex = 0\<rparr>,
                 \<lparr>Index = 2, Content = ''b'', Created = 1004, Revised = False, ParentIndex = 0\<rparr>],
              CurrentThought = 2, EstimatedTotal = 3, Status = ''active'',
              SessionCreated = 1000, LastActivity = 1006, Branches = [], Version = 3\<rparr>)
   \<and> (\<exists>w'. ContinueThinking
          \<lparr>ct_SessionID = ''s'', ct_Thought = ''x'', ct_NextNeeded = Some False,
           ct_ReviseStep = Some 3, ct_CreateBranch = True, ct_EstimatedTotal = 9\<rparr> example_world
            = Some (Inl (InvalidStepNumber 3), w')
         \<and> sessions w' = [''s'' \<mapsto> 1] \<and> view w' 1 = view example_world 1)
   \<and> (\<exists>reply w' u b. ContinueThinking
          \<lparr>ct_SessionID = ''s'', ct_Thought = ''x'', ct_NextNeeded = Some False,
           ct_ReviseStep = None, ct_CreateBranch = True, ct_EstimatedTotal = 9\<rparr> example_world
            = Some (Inr reply, w')
         \<and> sessions w' = [''s'' \<mapsto> u, ''s_branch_1'' \<mapsto> b]
         \<and> map Content (Thoughts (view w' u)) = [''a'', ''b'']
         \<and> map Content (Thoughts (view w' b)) = [''a'', ''b'']
         \<and> Status (view w' u) = ''active'' \<and> EstimatedTotal (view w' u) = 3)"
proof -
  let ?r = "\<lparr>ct_SessionID = ''s'', ct_Thought = ''x'', ct_NextNeeded = Some False,
           ct_ReviseStep = Some 1, ct_CreateBranch = True, ct_EstimatedTotal = 9\<rparr>"
  let ?r3 = "\<lparr>ct_SessionID = ''s'', ct_Thought = ''x'', ct_NextNeeded = Some False,
           ct_ReviseStep = Some 3, ct_CreateBranch = True, ct_EstimatedTotal = 9\<rparr>"
  let ?b = "\<lparr>ct_SessionID = ''s'', ct_Thought = ''x'', ct_NextNeeded = Some False,
           ct_ReviseStep = None, ct_CreateBranch = True, ct_EstimatedTotal = 9\<rparr>"
  have s: "sessions example_world ''s'' = Some 1" "sessions example_world = [''s'' \<mapsto> 1]"
    by (simp_all add: example_world_def)
  have e: "clock example_world (ticks example_world) = 1006" by (simp add: example_world_def)
  from ContinueThinking_mode_precedence[of example_world ?r 1]
  have 1: "(\<forall>b n e. ContinueThinking
          \<lparr>ct_SessionID = ''s'', ct_Thought = ''x'', ct_NextNeeded = n,
           ct_ReviseStep = Some 1, ct_CreateBranch = b, ct_EstimatedTotal = e\<rparr> example_world
        = ContinueThinking ?r example_world)"
    using wf_example_world s by simp
  from ContinueThinking_mode_precedence[of example_world ?r 1]
  have 2: "\<exists>reply w' u. ContinueThinking ?r example_world = Some (Inr reply, w')
         \<and> sessions w' = [''s'' \<mapsto> u]
         \<and> view w' u =
             \<lparr>ID = ''s'', Problem = ''plan a trip'',
              Thoughts =
                [\<lparr>Index = 1, Content = ''x'', Created = 1002, Revised = True, ParentIndex = 0\<rparr>,
                 \<lparr>Index = 2, Content = ''b'', Created = 1004, Revised = False, ParentIndex = 0\<rparr>],
              CurrentThought = 2, EstimatedTotal = 3, Status = ''active'',
              SessionCreated = 1000, LastActivity = 1006, Branches = [], Version = 3\<rparr>"
    using wf_example_world s by (auto simp add: view_example_world e)
  from ContinueThinking_mode_precedence[of example_world ?r3 1]
  have 3: "\<exists>w'. ContinueThinking ?r3 example_world = Some (Inl (InvalidStepNumber 3), w')
         \<and> sessions w' = [''s'' \<mapsto> 1] \<and> view w' 1 = view example_world 1"
    using wf_example_world s by (auto simp add: view_example_world)
  from ContinueThinking_mode_precedence[of example_world ?b 1] wf_example_world s
  obtain reply w' u b where b: "ContinueThinking ?b example_world = Some (Inr reply, w')"
    "sessions w' = [''s'' \<mapsto> u, ''s_branch_1'' \<mapsto> b]"
    "Thoughts (view w' u) = Thoughts (view example_world 1)"
    "Thoughts (view w' b) = Thoughts (view example_world 1)"
    "Status (view w' u) = Status (view example_world 1)"
    "EstimatedTotal (view w' u) = EstimatedTotal (view example_world 1)"
    by (auto simp add: view_example_world format_d_1)
  have "map Content (Thoughts (view w' u)) = [''a'', ''b'']"
    "map Content (Thoughts (view w' b)) = [''a'', ''b'']"
    "Status (view w' u) = ''active''" "EstimatedTotal (view w' u) = 3"
    unfolding b by (simp_all add: view_example_world)
  with b(1,2)
  have 4: "\<exists>reply w' u b. ContinueThinking ?b example_world = Some (Inr reply, w')
         \<and> sessions w' = [''s'' \<mapsto> u, ''s_branch_1'' \<mapsto> b]
         \<and> map Content (Thoughts (view w' u)) = [''a'', ''b'']
         \<and> map Content (Thoughts (view w' b)) = [''a'', ''b'']
         \<and> Status (view w' u) = ''active'' \<and> EstimatedTotal (view w' u) = 3"
    by (intro exI[of _ reply] exI[of _ w'] exI[of _ u] exI[of _ b]) simp
  from wf_example_world s(1) 1 2 3 4 show ?thesis by (intro conjI)
qed

lemma mutates_only_set_Status: "mutates_only q w (set_Status q v w)"
  by (simp add: mutates_only_def set_Status_def)

lemma mutates_only_agree:
  assumes c: "cells_in lo hi w q" and m: "mutates_only q w w'" and hi: "hi \<le> next_addr w"
  shows "agree_below lo w w'"
  unfolding agree_below_def
proof (intro allI impI)
  fix a assume a: "a < lo"
  have an: "a < next_addr w" using a c hi by (simp add: cells_in_def)
  have 1: "a \<noteq> q" using a c by (auto simp add: cells_in_def)
  have 2: "a \<notin> set (thought_ptrs w (Thoughts (session_mem w q)))"
    using a c by (auto simp add: cells_in_def)
  have 3: "\<not> (a = sl_array (Thoughts (session_mem w q)) \<and> 0 < sl_cap (Thoughts (session_mem w q)))"
    using a c by (auto simp add: cells_in_def slice_ok_def)
  have 4: "\<not> (a = sl_array (Branches (session_mem w q)) \<and> 0 < sl_cap (Branches (session_mem w q)))"
    using a c by (auto simp add: cells_in_def slice_ok_def)
  from m an 1 2 3 4
  show "session_mem w' a = session_mem w a \<and> thought_mem w' a = thought_mem w a
        \<and> thought_arrays w' a = thought_arrays w a \<and> string_arrays w' a = string_arrays w a"
    unfolding mutates_only_def by blast
qed

lemma SessionSnapshot_found:
  assumes wf: "wf_world w" and cur: "sessions w sid = Some cur"
  shows "\<exists>q w1. SessionSnapshot sid w = ((q, True), w1) \<and> q = next_addr w
           \<and> view w1 q = view w cur
           \<and> cells_in (next_addr w) (next_addr w1) w1 q
           \<and> agree_below (next_addr w) w w1 \<and> sessions w1 = sessions w
           \<and> next_addr w \<le> next_addr w1"
proof -
  obtain c w1 where cl: "clone cur w = (c, w1)" by (cases "clone cur w") auto
  have cc: "cells_in 0 (next_addr w) w cur" using wf cur by (simp add: wf_world_def)
  note k = clone_spec[OF cc cl]
  have "SessionSnapshot sid w = ((c, True), w1)" using cur cl by (simp add: SessionSnapshot_def)
  with k show ?thesis by (simp add: heap_only_def)
qed

lemma snapshot_isolated:
  assumes wf: "wf_world w" and cur: "sessions w sid = Some cur"
    and snap: "SessionSnapshot sid w = ((q, ok), w1)"
    and mut: "mutates_only q w1 w2"
  shows "ok" "q \<noteq> cur" "view w1 q = view w cur" "view w2 cur = view w cur"
    "\<exists>q' w3. SessionSnapshot sid w2 = ((q', True), w3) \<and> view w3 q' = view w cur"
proof -
  from SessionSnapshot_found[OF wf cur] snap
  have ok: "ok" and q: "q = next_addr w" and v1: "view w1 q = view w cur"
    and c1: "cells_in (next_addr w) (next_addr w1) w1 q"
    and a1: "agree_below (next_addr w) w w1" and s1: "sessions w1 = sessions w"
    and n1: "next_addr w \<le> next_addr w1"
    by auto
  show "ok" by (rule ok)
  show "view w1 q = view w cur" by (rule v1)
  have cc: "cells_in 0 (next_addr w) w cur" using wf cur by (simp add: wf_world_def)
  then show "q \<noteq> cur" by (simp add: q cells_in_def)
  have a2: "agree_below (next_addr w) w1 w2"
    by (rule mutates_only_agree[OF c1 mut le_refl])
  have a: "agree_below (next_addr w) w w2" using a1 a2 by (rule agree_below_trans)
  have s2: "sessions w2 = sessions w" "next_addr w \<le> next_addr w2"
    using mut s1 n1 by (simp_all add: mutates_only_def)
  have old: "\<And>s p. sessions w s = Some p \<Longrightarrow> cells_in 0 (next_addr w2) w2 p \<and> view w2 p = view w p"
  proof -
    fix s p assume "sessions w s = Some p"
    then have cp: "cells_in 0 (next_addr w) w p" using wf by (simp add: wf_world_def)
    note g = cells_in_agree[OF cp a]
    with s2 show "cells_in 0 (next_addr w2) w2 p \<and> view w2 p = view w p"
      by (auto intro: cells_in_mono)
  qed
  then show v2: "view w2 cur = view w cur" using cur by blast
  have wf2: "wf_world w2"
    unfolding wf_world_def using wf s2 old by (auto simp add: wf_world_def)
  have cur2: "sessions w2 sid = Some cur" using cur s2 by simp
  from SessionSnapshot_found[OF wf2 cur2] v2
  show "\<exists>q' w3. SessionSnapshot sid w2 = ((q', True), w3) \<and> view w3 q' = view w cur"
    by auto
qed

section \<open>Reading a session\<close>

text \<open>
  C2 as stated does not hold for \<^verbatim>\<open>SessionStore.Session\<close>, the lookup the claim cites: it
  returns the pointer the map holds. On the example state the caller gets address 1, the
  stored object; after \<^verbatim>\<open>p.Status = "paused"\<close> through that pointer the next lookup of the
  same id reads \<^verbatim>\<open>paused\<close>.
\<close>

theorem Session_exposes_stored_object_counterexample:
  "Session ''s'' example_world = (1, True) \<and> sessions example_world ''s'' = Some 1
   \<and> Status (view example_world (fst (Session ''s'' example_world))) = ''active''
   \<and> Status (view (set_Status 1 ''paused'' example_world)
               (fst (Session ''s'' (set_Status 1 ''paused'' example_world)))) = ''paused''"
  by (simp add: Session_def set_Status_def example_world_def view_def Let_def)

text \<open>
  C2, amended. The snapshot read \<^verbatim>\<open>SessionSnapshot\<close> (the one the review and history
  handlers use) returns, for an id that is present, a pointer to a fresh deep copy: it is
  not the stored object, it reads like the stored session, and whatever the caller then
  writes to the copy (its scalar fields, its thoughts, its slices) the stored session
  still reads as before and so does the next snapshot of the same id. The plain lookup
  \<^verbatim>\<open>Session\<close> returns the stored object itself.
\<close>

theorem SessionSnapshot_copy_isolation:
  assumes "wf_world w" and "sessions w sid = Some cur"
    and "SessionSnapshot sid w = ((q, ok), w1)"
    and "mutates_only q w1 w2"
  shows "ok \<and> q \<noteq> cur \<and> view w1 q = view w cur \<and> view w2 cur = view w cur
         \<and> (\<exists>q' w3. SessionSnapshot sid w2 = ((q', True), w3) \<and> view w3 q' = view w cur)
         \<and> fst (Session sid w) = cur"
  using snapshot_isolated[OF assms] assms(2) by (simp add: Session_def)

theorem SessionSnapshot_copy_isolation_witness:
  "wf_world example_world \<and> sessions example_world ''s'' = Some 1
   \<and> (\<exists>q w1. SessionSnapshot ''s'' example_world = ((q, True), w1)
         \<and> mutates_only q w1 (set_Status q ''paused'' w1)
         \<and> Status (view (set_Status q ''paused'' w1) q) = ''paused''
         \<and> q \<noteq> 1
         \<and> (\<exists>q' w3. SessionSnapshot ''s'' (set_Status q ''paused'' w1) = ((q', True), w3)
               \<and> Status (view w3 q') = ''active'' \<and> view w3 q' = view example_world 1))"
proof -
  have s: "sessions example_world ''s'' = Some 1" by (simp add: example_world_def)
  from SessionSnapshot_found[OF wf_example_world s]
  obtain q w1 where snap: "SessionSnapshot ''s'' example_world = ((q, True), w1)" by blast
  have m: "mutates_only q w1 (set_Status q ''paused'' w1)" by (rule mutates_only_set_Status)
  have p: "Status (view (set_Status q ''paused'' w1) q) = ''paused''"
    by (simp add: set_Status_def view_def Let_def)
  from SessionSnapshot_copy_isolation[OF wf_example_world s snap m]
  have "q \<noteq> 1" and "\<exists>q' w3. SessionSnapshot ''s'' (set_Status q ''paused'' w1) = ((q', True), w3)
               \<and> Status (view w3 q') = ''active'' \<and> view w3 q' = view example_world 1"
    by (auto simp add: view_example_world)
  with wf_example_world s snap m p show ?thesis by blast
qed

lemma branch_id_neq: "sid @ ''_branch_'' @ n \<noteq> sid"
  by simp

section \<open>Branching\<close>

text \<open>
  C7. A branching call on a stored session \<open>P\<close> (stored under its own id) succeeds. The
  branch id is \<open>P\<close>'s id, then \<^verbatim>\<open>_branch_\<close>, then the number of \<open>P\<close>'s branches plus one in
  decimal; it is appended to \<open>P\<close>'s branch list, and the branch session is registered under
  it with that id, \<open>P\<close>'s thoughts, status \<^verbatim>\<open>active\<close> and \<open>CurrentThought\<close> equal to \<open>P\<close>'s
  number of thoughts. The copy is deep: the branch is another session object and shares no
  thought object with the parent. Afterwards adding a thought to the parent succeeds and
  leaves the branch session as it was, and adding a thought to the branch succeeds and
  leaves the parent as it was.
\<close>

theorem ContinueThinking_branch_isolated:
  assumes "wf_world w" and "sessions w (ct_SessionID args) = Some P"
    and "ID (view w P) = ct_SessionID args"
    and "ct_ReviseStep args = None" and "ct_CreateBranch args"
  shows "\<exists>reply u b w' branchID.
     branchID = ID (view w P) @ ''_branch_''
                  @ format_d (of_nat (length (Branches (view w P))) + 1)
     \<and> ContinueThinking args w = Some (Inr reply, w')
     \<and> sessions w' = (sessions w)(ID (view w P) \<mapsto> u, branchID \<mapsto> b)
     \<and> Branches (view w' u) = Branches (view w P) @ [branchID]
     \<and> Thoughts (view w' u) = Thoughts (view w P)
     \<and> ID (view w' b) = branchID
     \<and> Thoughts (view w' b) = Thoughts (view w P)
     \<and> Status (view w' b) = ''active''
     \<and> CurrentThought (view w' b) = of_nat (length (Thoughts (view w P)))
     \<and> b \<noteq> u
     \<and> set (thought_ptrs w' (Thoughts (session_mem w' b)))
         \<inter> set (thought_ptrs w' (Thoughts (session_mem w' u))) = {}
     \<and> (\<forall>a. ct_SessionID a = ID (view w P) \<and> ct_ReviseStep a = None \<and> \<not> ct_CreateBranch a \<longrightarrow>
           (\<exists>r2 u2 w2. ContinueThinking a w' = Some (Inr r2, w2)
              \<and> sessions w2 (ID (view w P)) = Some u2
              \<and> length (Thoughts (view w2 u2)) = Suc (length (Thoughts (view w P)))
              \<and> sessions w2 branchID = Some b \<and> view w2 b = view w' b))
     \<and> (\<forall>a. ct_SessionID a = branchID \<and> ct_ReviseStep a = None \<and> \<not> ct_CreateBranch a \<longrightarrow>
           (\<exists>r2 b2 w2. ContinueThinking a w' = Some (Inr r2, w2)
              \<and> sessions w2 branchID = Some b2
              \<and> length (Thoughts (view w2 b2)) = Suc (length (Thoughts (view w P)))
              \<and> sessions w2 (ID (view w P)) = Some u \<and> view w2 u = view w' u))"
proof -
  let ?sid = "ct_SessionID args"
  let ?bid = "?sid @ ''_branch_'' @ format_d (of_nat (length (Branches (view w P))) + 1)"
  from branch_ok[OF assms(1) assms(4) assms(5) assms(2)]
  obtain reply u b w' m where ct: "ContinueThinking args w = Some (Inr reply, w')"
    and s': "sessions w' = (sessions w)(?sid \<mapsto> u, ?bid \<mapsto> b)"
    and vu: "view w' u = (view w P)
               \<lparr>Branches := Branches (view w P) @ [?bid],
                LastActivity := clock w (ticks w),
                Version := Version (view w P) + 1\<rparr>"
    and vb: "view w' b =
               \<lparr>ID = ?bid, Problem = Problem (view w P) @ '' (Alternative branch)'',
                Thoughts = Thoughts (view w P),
                CurrentThought = of_nat (length (Thoughts (view w P))),
                EstimatedTotal = EstimatedTotal (view w P), Status = ''active'',
                SessionCreated = clock w (Suc (ticks w)),
                LastActivity = clock w (Suc (Suc (ticks w))),
                Branches = [], Version = 0\<rparr>"
    and cb: "cells_in m (next_addr w') w' b" and um: "u < m"
    and tu: "\<forall>t\<in>set (thought_ptrs w' (Thoughts (session_mem w' u))). t < m"
    and wf': "wf_world w'"
    by blast
  have ne: "?bid \<noteq> ?sid" by (rule branch_id_neq)
  have su: "sessions w' ?sid = Some u" and sb: "sessions w' ?bid = Some b"
    using ne by (simp_all add: s')
  have bu: "b \<noteq> u" using cb um by (simp add: cells_in_def)
  have dj: "set (thought_ptrs w' (Thoughts (session_mem w' b)))
         \<inter> set (thought_ptrs w' (Thoughts (session_mem w' u))) = {}"
    using cb tu by (fastforce simp add: cells_in_def)
  have iso1: "\<exists>r2 u2 w2. ContinueThinking a w' = Some (Inr r2, w2)
              \<and> sessions w2 ?sid = Some u2
              \<and> length (Thoughts (view w2 u2)) = Suc (length (Thoughts (view w P)))
              \<and> sessions w2 ?bid = Some b \<and> view w2 b = view w' b"
    if a: "ct_SessionID a = ?sid" "ct_ReviseStep a = None" "\<not> ct_CreateBranch a" for a
  proof -
    have c: "sessions w' (ct_SessionID a) = Some u" using su a(1) by simp
    from append_ok[OF wf' a(2) a(3) c]
    obtain r2 u2 w2 where "ContinueThinking a w' = Some (Inr r2, w2)"
      "sessions w2 = (sessions w')(ct_SessionID a \<mapsto> u2)"
      "length (Thoughts (view w2 u2)) = Suc (length (Thoughts (view w' u)))"
      "\<forall>s p. sessions w' s = Some p \<longrightarrow> view w2 p = view w' p"
      by fastforce
    then show ?thesis using a(1) ne sb vu by (intro exI[of _ r2] exI[of _ u2] exI[of _ w2]) simp
  qed
  have iso2: "\<exists>r2 b2 w2. ContinueThinking a w' = Some (Inr r2, w2)
              \<and> sessions w2 ?bid = Some b2
              \<and> length (Thoughts (view w2 b2)) = Suc (length (Thoughts (view w P)))
              \<and> sessions w2 ?sid = Some u \<and> view w2 u = view w' u"
    if a: "ct_SessionID a = ?bid" "ct_ReviseStep a = None" "\<not> ct_CreateBranch a" for a
  proof -
    have c: "sessions w' (ct_SessionID a) = Some b" using sb a(1) by simp
    from append_ok[OF wf' a(2) a(3) c]
    obtain r2 b2 w2 where "ContinueThinking a w' = Some (Inr r2, w2)"
      "sessions w2 = (sessions w')(ct_SessionID a \<mapsto> b2)"
      "length (Thoughts (view w2 b2)) = Suc (length (Thoughts (view w' b)))"
      "\<forall>s p. sessions w' s = Some p \<longrightarrow> view w2 p = view w' p"
      by fastforce
    then show ?thesis using a(1) ne su vb by (intro exI[of _ r2] exI[of _ b2] exI[of _ w2]) simp
  qed
  show ?thesis
    unfolding assms(3)
    using ct s' bu dj iso1 iso2
    by (intro exI[of _ reply] exI[of _ u] exI[of _ b] exI[of _ w'] exI[of _ ?bid])
       (simp add: vu vb)
qed

theorem ContinueThinking_branch_isolated_witness:
  "wf_world example_world \<and> sessions example_world ''s'' = Some 1
   \<and> ID (view example_world 1) = ''s''
   \<and> (\<exists>reply u b w'.
         ContinueThinking
           \<lparr>ct_SessionID = ''s'', ct_Thought = [], ct_NextNeeded = None,
            ct_ReviseStep = None, ct_CreateBranch = True, ct_EstimatedTotal = 0\<rparr> example_world
           = Some (Inr reply, w')
         \<and> sessions w' = [''s'' \<mapsto> u, ''s_branch_1'' \<mapsto> b]
         \<and> Branches (view w' u) = [''s_branch_1'']
         \<and> ID (view w' b) = ''s_branch_1'' \<and> length (Thoughts (view w' b)) = 2
         \<and> Status (view w' b) = ''active'' \<and> CurrentThought (view w' b) = 2
         \<and> b \<noteq> u
         \<and> (\<exists>r2 u2 w2. ContinueThinking (append_args ''s'' ''c'' None 0) w' = Some (Inr r2, w2)
               \<and> sessions w2 ''s'' = Some u2 \<and> length (Thoughts (view w2 u2)) = 3
               \<and> sessions w2 ''s_branch_1'' = Some b \<and> length (Thoughts (view w2 b)) = 2))"
proof -
  let ?a = "\<lparr>ct_SessionID = ''s'', ct_Thought = [], ct_NextNeeded = None,
            ct_ReviseStep = None, ct_CreateBranch = True, ct_EstimatedTotal = 0\<rparr>"
  have s: "sessions example_world ''s'' = Some 1" "sessions example_world = [''s'' \<mapsto> 1]"
    by (simp_all add: example_world_def)
  have i: "ID (view example_world 1) = ''s''" by (simp add: view_example_world)
  from ContinueThinking_branch_isolated[of example_world ?a 1] wf_example_world s i
  obtain reply u b w' where b: "ContinueThinking ?a example_world = Some (Inr reply, w')"
    "sessions w' = [''s'' \<mapsto> u, ''s_branch_1'' \<mapsto> b]"
    "Branches (view w' u) = [''s_branch_1'']"
    "ID (view w' b) = ''s_branch_1''"
    "Thoughts (view w' b) = Thoughts (view example_world 1)"
    "Status (view w' b) = ''active''" "CurrentThought (view w' b) = 2" "b \<noteq> u"
    and iso: "\<forall>a. ct_SessionID a = ''s'' \<and> ct_ReviseStep a = None \<and> \<not> ct_CreateBranch a \<longrightarrow>
           (\<exists>r2 u2 w2. ContinueThinking a w' = Some (Inr r2, w2)
              \<and> sessions w2 ''s'' = Some u2
              \<and> length (Thoughts (view w2 u2)) = Suc (length (Thoughts (view example_world 1)))
              \<and> sessions w2 ''s_branch_1'' = Some b \<and> view w2 b = view w' b)"
    by (auto simp add: view_example_world format_d_1)
  have l: "length (Thoughts (view w' b)) = 2" unfolding b by (simp add: view_example_world)
  from iso[rule_format, of "append_args ''s'' ''c'' None 0"]
  obtain r2 u2 w2 where c: "ContinueThinking (append_args ''s'' ''c'' None 0) w' = Some (Inr r2, w2)"
    "sessions w2 ''s'' = Some u2" "length (Thoughts (view w2 u2)) = 3"
    "sessions w2 ''s_branch_1'' = Some b" "view w2 b = view w' b"
    by (auto simp add: append_args_simps view_example_world)
  have "\<exists>r2 u2 w2. ContinueThinking (append_args ''s'' ''c'' None 0) w' = Some (Inr r2, w2)
               \<and> sessions w2 ''s'' = Some u2 \<and> length (Thoughts (view w2 u2)) = 3
               \<and> sessions w2 ''s_branch_1'' = Some b \<and> length (Thoughts (view w2 b)) = 2"
    using c l by (intro exI[of _ r2] exI[of _ u2] exI[of _ w2]) simp
  with b l have "\<exists>reply u b w'.
         ContinueThinking ?a example_world = Some (Inr reply, w')
         \<and> sessions w' = [''s'' \<mapsto> u, ''s_branch_1'' \<mapsto> b]
         \<and> Branches (view w' u) = [''s_branch_1'']
         \<and> ID (view w' b) = ''s_branch_1'' \<and> length (Thoughts (view w' b)) = 2
         \<and> Status (view w' b) = ''active'' \<and> CurrentThought (view w' b) = 2
         \<and> b \<noteq> u
         \<and> (\<exists>r2 u2 w2. ContinueThinking (append_args ''s'' ''c'' None 0) w' = Some (Inr r2, w2)
               \<and> sessions w2 ''s'' = Some u2 \<and> length (Thoughts (view w2 u2)) = 3
               \<and> sessions w2 ''s_branch_1'' = Some b \<and> length (Thoughts (view w2 b)) = 2)"
    by (intro exI[of _ reply] exI[of _ u] exI[of _ b] exI[of _ w']) simp
  with wf_example_world s(1) i show ?thesis by (intro conjI)
qed

lemma session_ok_revise:
  assumes "session_ok sid v"
  shows "session_ok sid (v\<lparr>Thoughts := (Thoughts v)[i := (Thoughts v ! i)\<lparr>Content := c, Revised := True\<rparr>],
                           LastActivity := t, Version := n\<rparr>)"
proof -
  have "Index (((Thoughts v)[i := (Thoughts v ! i)\<lparr>Content := c, Revised := True\<rparr>]) ! j)
          = Index (Thoughts v ! j)" if "j < length (Thoughts v)" for j
    using that by (cases "j = i") simp_all
  then show ?thesis using assms by (simp add: session_ok_def)
qed

lemma session_ok_append:
  assumes "session_ok sid v"
  shows "session_ok sid (v\<lparr>Thoughts := Thoughts v @
            [\<lparr>Index = of_nat (length (Thoughts v)) + 1, Content = c, Created = t,
              Revised = False, ParentIndex = 0\<rparr>],
          CurrentThought := k, EstimatedTotal := e, Status := st, LastActivity := t',
          Version := n\<rparr>)"
  using assms by (auto simp add: session_ok_def nth_append less_Suc_eq)

lemma session_ok_branch_parent:
  assumes "session_ok sid v"
  shows "session_ok sid (v\<lparr>Branches := bs, LastActivity := t, Version := n\<rparr>)"
  using assms by (simp add: session_ok_def)

lemma StartThinking_new:
  "\<exists>p. sessions (snd (StartThinking args w)) = (sessions w)(start_id args w \<mapsto> p)
       \<and> ID (view (snd (StartThinking args w)) p) = start_id args w
       \<and> Thoughts (view (snd (StartThinking args w)) p) = []"
  using StartThinking_eq[of args w]
  by (auto simp add: view_def Let_def start_id_def thoughts_at_def thought_ptrs_def nil_slice_def)

lemma store_inv_start:
  assumes "store_inv w" "StartThinking args w = (r, w')"
  shows "store_inv w'"
proof -
  have w': "w' = snd (StartThinking args w)" using assms(2) by simp
  have wf: "wf_world w" using assms(1) by (simp add: store_inv_def)
  note k = StartThinking_wf[OF wf, of args]
  from StartThinking_new[of args w]
  obtain p where s: "sessions w' = (sessions w)(start_id args w \<mapsto> p)"
    and v: "ID (view w' p) = start_id args w" "Thoughts (view w' p) = []"
    unfolding w' by auto
  show ?thesis
    unfolding store_inv_def
  proof (intro conjI allI impI)
    show "wf_world w'" using k(1) by (simp add: w')
  next
    fix sid x assume sx: "sessions w' sid = Some x"
    show "session_ok sid (view w' x)"
    proof (cases "sid = start_id args w")
      case True
      then have "x = p" using sx s by simp
      then show ?thesis using v True by (simp add: session_ok_def)
    next
      case False
      then have o: "sessions w sid = Some x" using sx s by simp
      then have "view w' x = view w x" using k(2) by (simp add: w')
      then show ?thesis using assms(1) o by (simp add: store_inv_def)
    qed
  qed
qed

lemma store_inv_snapshot:
  assumes "store_inv w" "SessionSnapshot sid w = (q, w')"
  shows "store_inv w'"
proof -
  have w': "w' = snd (SessionSnapshot sid w)" using assms(2) by simp
  have wf: "wf_world w" using assms(1) by (simp add: store_inv_def)
  note k = SessionSnapshot_wf[OF wf, of sid]
  show ?thesis
    unfolding store_inv_def w'
    using k assms(1) by (auto simp add: store_inv_def)
qed

lemma store_inv_continue:
  assumes inv: "store_inv w" and run: "ContinueThinking args w = Some (r, w')"
  shows "store_inv w'"
proof -
  have wf: "wf_world w" using inv by (simp add: store_inv_def)
  have ok: "\<And>s p. sessions w s = Some p \<Longrightarrow> session_ok s (view w p)"
    using inv by (simp add: store_inv_def)
  let ?sid = "ct_SessionID args"
  show ?thesis
  proof (cases "sessions w ?sid")
    case None
    from ContinueThinking_NotFound[OF None] run have "w' = w" by simp
    then show ?thesis using inv by simp
  next
    case (Some cur)
    note okc = ok[OF Some]
    have upd: "store_inv w'"
      if wf': "wf_world w'" and s': "sessions w' = (sessions w)(?sid \<mapsto> u)"
        and u: "session_ok ?sid (view w' u)"
        and old: "\<forall>s p. sessions w s = Some p \<longrightarrow> view w' p = view w p" for u
      unfolding store_inv_def
    proof (intro conjI allI impI)
      show "wf_world w'" by (rule wf')
    next
      fix s x assume sx: "sessions w' s = Some x"
      show "session_ok s (view w' x)"
      proof (cases "s = ?sid")
        case True
        then have "x = u" using sx s' by simp
        then show ?thesis using u True by simp
      next
        case False
        then have o: "sessions w s = Some x" using sx s' by simp
        then show ?thesis using old ok by simp
      qed
    qed
    show ?thesis
    proof (cases "ct_ReviseStep args")
      case (Some reviseStep)
      note rs = this
      show ?thesis
      proof (cases "sint (reviseStep - 1) < 0
              \<or> int (length (Thoughts (view w cur))) \<le> sint (reviseStep - 1)")
        case True
        from revise_invalid[OF wf rs \<open>sessions w ?sid = Some cur\<close> True] run
        have "sessions w' = sessions w" "\<forall>s p. sessions w s = Some p \<longrightarrow> view w' p = view w p"
          "wf_world w'" by auto
        then show ?thesis using ok by (simp add: store_inv_def)
      next
        case False
        then have v: "0 \<le> sint (reviseStep - 1)"
          "sint (reviseStep - 1) < int (length (Thoughts (view w cur)))" by simp_all
        from revise_valid[OF wf rs \<open>sessions w ?sid = Some cur\<close> v] run
        obtain u where s': "sessions w' = (sessions w)(?sid \<mapsto> u)"
          and vu: "view w' u = (view w cur)
               \<lparr>Thoughts := (Thoughts (view w cur))
                  [nat (sint (reviseStep - 1)) :=
                     (Thoughts (view w cur) ! nat (sint (reviseStep - 1)))
                       \<lparr>Content := ct_Thought args, Revised := True\<rparr>],
                LastActivity := clock w (ticks w),
                Version := Version (view w cur) + 1\<rparr>"
          and old: "\<forall>s p. sessions w s = Some p \<longrightarrow> view w' p = view w p"
          and wf': "wf_world w'" by auto
        have "session_ok ?sid (view w' u)"
          unfolding vu by (rule session_ok_revise[OF okc])
        then show ?thesis using upd wf' s' old by blast
      qed
    next
      case None
      note rs = this
      show ?thesis
      proof (cases "ct_CreateBranch args")
        case False
        from append_ok[OF wf rs False \<open>sessions w ?sid = Some cur\<close>] run
        obtain u where s': "sessions w' = (sessions w)(?sid \<mapsto> u)"
          and vu: "view w' u = (view w cur)
               \<lparr>Thoughts := Thoughts (view w cur) @
                  [\<lparr>Index = of_nat (length (Thoughts (view w cur))) + 1,
                    Content = ct_Thought args, Created = clock w (ticks w),
                    Revised = False, ParentIndex = 0\<rparr>],
                CurrentThought := of_nat (length (Thoughts (view w cur))) + 1,
                EstimatedTotal := (if 0 < sint (ct_EstimatedTotal args)
                                   then ct_EstimatedTotal args
                                   else EstimatedTotal (view w cur)),
                Status := (if ct_NextNeeded args = Some False then ''completed''
                           else Status (view w cur)),
                LastActivity := clock w (Suc (ticks w)),
                Version := Version (view w cur) + 1\<rparr>"
          and old: "\<forall>s p. sessions w s = Some p \<longrightarrow> view w' p = view w p"
          and wf': "wf_world w'" by auto
        have "session_ok ?sid (view w' u)"
          unfolding vu by (rule session_ok_append[OF okc])
        then show ?thesis using upd wf' s' old by blast
      next
        case True
        let ?bid = "?sid @ ''_branch_'' @ format_d (of_nat (length (Branches (view w cur))) + 1)"
        from branch_ok[OF wf rs True \<open>sessions w ?sid = Some cur\<close>] run
        obtain u b where s': "sessions w' = (sessions w)(?sid \<mapsto> u, ?bid \<mapsto> b)"
          and vu: "view w' u = (view w cur)
               \<lparr>Branches := Branches (view w cur) @ [?bid],
                LastActivity := clock w (ticks w),
                Version := Version (view w cur) + 1\<rparr>"
          and vb: "view w' b =
               \<lparr>ID = ?bid, Problem = Problem (view w cur) @ '' (Alternative branch)'',
                Thoughts = Thoughts (view w cur),
                CurrentThought = of_nat (length (Thoughts (view w cur))),
                EstimatedTotal = EstimatedTotal (view w cur), Status = ''active'',
                SessionCreated = clock w (Suc (ticks w)),
                LastActivity = clock w (Suc (Suc (ticks w))),
                Branches = [], Version = 0\<rparr>"
          and old: "\<forall>s p. sessions w s = Some p \<longrightarrow> view w' p = view w p"
          and wf': "wf_world w'" by auto
        have oku: "session_ok ?sid (view w' u)"
          unfolding vu by (rule session_ok_branch_parent[OF okc])
        have okb: "session_ok ?bid (view w' b)"
          using okc by (simp add: vb session_ok_def)
        show ?thesis
          unfolding store_inv_def
        proof (intro conjI allI impI)
          show "wf_world w'" by (rule wf')
        next
          fix s x assume sx: "sessions w' s = Some x"
          show "session_ok s (view w' x)"
          proof (cases "s = ?bid")
            case True
            then have "x = b" using sx s' by simp
            then show ?thesis using okb True by simp
          next
            case nb: False
            show ?thesis
            proof (cases "s = ?sid")
              case True
              then have "x = u" using sx s' nb by simp
              then show ?thesis using oku True by simp
            next
              case False
              then have o: "sessions w s = Some x" using sx s' nb by simp
              then show ?thesis using old ok by simp
            qed
          qed
        qed
      qed
    qed
  qed
qed

lemma reachable_store_inv: "reachable w \<Longrightarrow> store_inv w"
proof (induction rule: reachable.induct)
  case (init w)
  then show ?case by (simp add: store_inv_def wf_world_def)
next
  case (start w args r w')
  then show ?case by (blast intro: store_inv_start)
next
  case (continue w cargs r' w')
  then show ?case by (blast intro: store_inv_continue)
next
  case (snapshot w sid q w')
  then show ?case by (blast intro: store_inv_snapshot)
qed

section \<open>Numbering of thoughts\<close>

text \<open>
  C6. In every state the server can reach, every stored session has its thoughts numbered
  without gaps: the thought at position \<open>i\<close> (from 0) has index \<open>i + 1\<close>. No call of
  \<^verbatim>\<open>ContinueThinking\<close> renumbers: where the session still has a thought at position \<open>i\<close>
  after the call, its index is the one it had.
\<close>

theorem thought_index_invariant:
  assumes "reachable w" and "sessions w sid = Some p"
    and "i < length (Thoughts (view w p))"
  shows "Index (Thoughts (view w p) ! i) = of_nat i + 1
         \<and> (\<forall>cargs r w' p'.
               ContinueThinking cargs w = Some (r, w') \<and> sessions w' sid = Some p'
               \<and> i < length (Thoughts (view w' p'))
               \<longrightarrow> Index (Thoughts (view w' p') ! i) = Index (Thoughts (view w p) ! i))"
proof -
  have inv: "store_inv w" by (rule reachable_store_inv[OF assms(1)])
  then have 1: "Index (Thoughts (view w p) ! i) = of_nat i + 1"
    using assms(2,3) by (simp add: store_inv_def session_ok_def)
  have 2: "Index (Thoughts (view w' p') ! i) = Index (Thoughts (view w p) ! i)"
    if "ContinueThinking cargs w = Some (r, w')" "sessions w' sid = Some p'"
      "i < length (Thoughts (view w' p'))" for cargs r w' p'
  proof -
    have "store_inv w'" by (rule store_inv_continue[OF inv that(1)])
    then have "Index (Thoughts (view w' p') ! i) = of_nat i + 1"
      using that(2,3) by (simp add: store_inv_def session_ok_def)
    with 1 show ?thesis by simp
  qed
  from 1 2 show ?thesis by blast
qed

theorem thought_index_invariant_witness:
  "\<exists>r1 w1 r2 w2 p.
     ContinueThinking (append_args ''s'' ''a'' None 0)
       (snd (StartThinking \<lparr>st_Problem = ''plan a trip'', st_SessionID = ''s'',
                            st_EstimatedSteps = 3\<rparr> initial_world)) = Some (r1, w1)
     \<and> ContinueThinking (append_args ''s'' ''b'' None 0) w1 = Some (r2, w2)
     \<and> reachable w2 \<and> sessions w2 ''s'' = Some p
     \<and> length (Thoughts (view w2 p)) = 2
     \<and> Index (Thoughts (view w2 p) ! 0) = 1 \<and> Index (Thoughts (view w2 p) ! 1) = 2"
proof -
  let ?s = "\<lparr>st_Problem = ''plan a trip'', st_SessionID = ''s'', st_EstimatedSteps = 3\<rparr>"
  let ?w0 = "snd (StartThinking ?s initial_world)"
  let ?a1 = "append_args ''s'' ''a'' None 0"
  let ?a2 = "append_args ''s'' ''b'' None 0"
  have r: "reachable initial_world" by (rule reachable.init) (simp_all add: initial_world_def)
  have "StartThinking ?s initial_world = (fst (StartThinking ?s initial_world), ?w0)" by simp
  with r have r0: "reachable ?w0" by (rule reachable.start)
  have wf0: "wf_world ?w0" by (rule StartThinking_wf(1)[OF wf_initial_world])
  from StartThinking_new[of ?s initial_world]
  obtain p0 where s0: "sessions ?w0 ''s'' = Some p0" and t0: "Thoughts (view ?w0 p0) = []"
    by (auto simp add: start_id_def)
  have c0: "sessions ?w0 (ct_SessionID ?a1) = Some p0" using s0 by (simp add: append_args_simps)
  from append_ok[OF wf0 _ _ c0]
  obtain r1 u1 w1 where 1: "ContinueThinking ?a1 ?w0 = Some (Inr r1, w1)"
    and m1: "sessions w1 = (sessions ?w0)(''s'' \<mapsto> u1)"
    and l1: "length (Thoughts (view w1 u1)) = 1"
    and wf1: "wf_world w1"
    by (auto simp add: append_args_simps t0)
  have r1: "reachable w1" by (rule reachable.continue[OF r0 1])
  have c1: "sessions w1 (ct_SessionID ?a2) = Some u1" using m1 by (simp add: append_args_simps)
  from append_ok[OF wf1 _ _ c1]
  obtain r2 u2 w2 where 2: "ContinueThinking ?a2 w1 = Some (Inr r2, w2)"
    and m2: "sessions w2 = (sessions w1)(''s'' \<mapsto> u2)"
    and l2: "length (Thoughts (view w2 u2)) = 2"
    by (auto simp add: append_args_simps l1)
  have r2: "reachable w2" by (rule reachable.continue[OF r1 2])
  have s2: "sessions w2 ''s'' = Some u2" using m2 by simp
  from thought_index_invariant[OF r2 s2, of 0] thought_index_invariant[OF r2 s2, of 1] l2
  have "Index (Thoughts (view w2 u2) ! 0) = 1" "Index (Thoughts (view w2 u2) ! 1) = 2"
    by simp_all
  with 1 2 r2 s2 l2 show ?thesis
    by (intro exI[of _ "Inr r1"] exI[of _ w1] exI[of _ "Inr r2"] exI[of _ w2] exI[of _ u2]) simp
qed




lemma deepCopyThoughts_sessions:
  assumes "deepCopyThoughts s w = (c, w')"
  shows "session_mem w' = session_mem w" "sessions w' = sessions w" "next_addr w \<le> next_addr w'"
proof -
  let ?w1 = "w\<lparr>next_addr := Suc (next_addr w),
              thought_arrays := (thought_arrays w)(next_addr w := replicate (sl_len s) 0)\<rparr>"
  have w': "w' = copy_thoughts_loop (next_addr w) 0 (thought_ptrs w s) ?w1"
    using assms by (auto simp add: deepCopyThoughts_def make_thoughts_def alloc_def Let_def)
  show "session_mem w' = session_mem w" by (simp add: w' copy_loop_session_mem)
  have "heap_only ?w1 w'" unfolding w' by (rule copy_loop_heap_only)
  then show "sessions w' = sessions w" "next_addr w \<le> next_addr w'"
    by (simp_all add: heap_only_def)
qed

lemma gslice_Clone_sessions:
  assumes "gslice_Clone s w = (c, w')"
  shows "session_mem w' = session_mem w" "sessions w' = sessions w" "next_addr w \<le> next_addr w'"
  using assms
  by (auto simp add: gslice_Clone_def alloc_def Let_def split: if_splits)

lemma clone_sessions:
  assumes "clone cur w = (c, w')"
  shows "c = next_addr w" "next_addr w < next_addr w'" "sessions w' = sessions w"
    "\<forall>a<next_addr w. session_mem w' a = session_mem w a"
proof -
  let ?n = "next_addr w"
  let ?w1 = "w\<lparr>next_addr := Suc ?n, session_mem := (session_mem w)(?n := session_mem w cur)\<rparr>"
  obtain ts w2 where dc: "deepCopyThoughts (Thoughts (session_mem ?w1 cur)) ?w1 = (ts, w2)"
    by (cases "deepCopyThoughts (Thoughts (session_mem ?w1 cur)) ?w1") auto
  note d = deepCopyThoughts_sessions[OF dc]
  let ?w3 = "w2\<lparr>session_mem := (session_mem w2)(?n := (session_mem w2 ?n)\<lparr>Thoughts := ts\<rparr>)\<rparr>"
  obtain bs w4 where gc: "gslice_Clone (Branches (session_mem ?w3 cur)) ?w3 = (bs, w4)"
    by (cases "gslice_Clone (Branches (session_mem ?w3 cur)) ?w3") auto
  note g = gslice_Clone_sessions[OF gc]
  let ?w5 = "w4\<lparr>session_mem := (session_mem w4)(?n := (session_mem w4 ?n)\<lparr>Branches := bs\<rparr>)\<rparr>"
  have cl: "clone cur w = (?n, ?w5)"
    using dc gc by (simp add: clone_def new_session_eq Let_def)
  have "c = fst (clone cur w)" "w' = snd (clone cur w)" using assms by simp_all
  then have res: "c = ?n" "w' = ?w5" unfolding cl by simp_all
  show "c = ?n" by (rule res)
  show "next_addr w < next_addr w'" using d(3) g(3) by (simp add: res)
  show "sessions w' = sessions w" using d(2) g(2) by (simp add: res)
  show "\<forall>a<next_addr w. session_mem w' a = session_mem w a"
    using d(1) g(1) by (simp add: res)
qed

lemma reviseFunc_session_local:
  assumes "reviseFunc args reviseStep c w = (res, w')"
  shows "sessions w' = sessions w" "next_addr w \<le> next_addr w'"
    "\<forall>x. x \<noteq> c \<longrightarrow> session_mem w' x = session_mem w x"
    "\<forall>u r. res = Inr (u, r) \<longrightarrow> u = c"
  using assms
  by (auto simp add: reviseFunc_def Let_def time_Now_def split: if_splits)

lemma append_thought_sessions:
  assumes "append_thought s x w = (s', w')"
  shows "session_mem w' = session_mem w" "sessions w' = sessions w" "next_addr w \<le> next_addr w'"
    "ticks w' = ticks w" "clock w' = clock w"
  using assms
  by (auto simp add: append_thought_def alloc_def Let_def split: if_splits)

lemma appendFunc_session_local:
  assumes "appendFunc args c w = (res, w')"
  shows "sessions w' = sessions w" "next_addr w \<le> next_addr w'"
    "\<forall>x. x \<noteq> c \<longrightarrow> session_mem w' x = session_mem w x"
    "\<forall>u r. res = Inr (u, r) \<longrightarrow> u = c"
proof -
  let ?S = "session_mem w c"
  let ?n = "next_addr w"
  let ?tid = "of_nat (sl_len (Thoughts ?S)) + 1 :: go_int"
  let ?T = "\<lparr>Index = ?tid, Content = ct_Thought args, Created = clock w (ticks w),
             Revised = False, ParentIndex = 0\<rparr>"
  let ?w2 = "w\<lparr>ticks := Suc (ticks w), next_addr := Suc ?n,
               thought_mem := (thought_mem w)(?n := ?T)\<rparr>"
  obtain ts w3 where ap: "append_thought (Thoughts ?S) ?n ?w2 = (ts, w3)"
    by (cases "append_thought (Thoughts ?S) ?n ?w2") auto
  note a = append_thought_sessions[OF ap]
  let ?S' = "?S\<lparr>Thoughts := ts, CurrentThought := ?tid,
      LastActivity := clock w (Suc (ticks w)),
      EstimatedTotal := (if 0 < sint (ct_EstimatedTotal args) then ct_EstimatedTotal args
                         else EstimatedTotal ?S),
      Status := (if ct_NextNeeded args = Some False then ''completed'' else Status ?S)\<rparr>"
  let ?w9 = "w3\<lparr>ticks := Suc (Suc (ticks w)), session_mem := (session_mem w)(c := ?S')\<rparr>"
  have sm3: "session_mem w3 = session_mem w" using a(1) by simp
  have h3: "ticks w3 = Suc (ticks w)" "clock w3 = clock w" using a(4,5) by simp_all
  have "\<exists>r. appendFunc args c w = (Inr (c, r), ?w9)"
    using ap by (simp add: appendFunc_def Let_def time_Now_def new_thought_eq sm3 h3)
  then obtain r where r: "appendFunc args c w = (Inr (c, r), ?w9)" ..
  have "res = fst (appendFunc args c w)" "w' = snd (appendFunc args c w)"
    using assms by simp_all
  then have res: "res = Inr (c, r)" "w' = ?w9" unfolding r by simp_all
  show "sessions w' = sessions w" using a(2) by (simp add: res)
  show "next_addr w \<le> next_addr w'" using a(3) by (simp add: res)
  show "\<forall>x. x \<noteq> c \<longrightarrow> session_mem w' x = session_mem w x" by (simp add: res)
  show "\<forall>u r. res = Inr (u, r) \<longrightarrow> u = c" by (simp add: res)
qed

lemma updateFunc_of_session_local:
  assumes "updateFunc_of args c w = (res, w')"
  shows "sessions w' = sessions w" "next_addr w \<le> next_addr w'"
    "\<forall>x. x \<noteq> c \<longrightarrow> session_mem w' x = session_mem w x"
    "\<forall>u. res = Inr u \<longrightarrow> u = c"
proof -
  have "sessions w' = sessions w \<and> next_addr w \<le> next_addr w'
        \<and> (\<forall>x. x \<noteq> c \<longrightarrow> session_mem w' x = session_mem w x)
        \<and> (\<forall>u. res = Inr u \<longrightarrow> u = c)"
  proof (cases "ct_ReviseStep args")
    case (Some reviseStep)
    obtain r0 w0 where f: "reviseFunc args reviseStep c w = (r0, w0)"
      by (cases "reviseFunc args reviseStep c w") auto
    note l = reviseFunc_session_local[OF f]
    from assms Some f have "w' = w0" "\<forall>u. res = Inr u \<longrightarrow> (\<exists>r. r0 = Inr (u, r))"
      by (auto simp add: updateFunc_of_def split: sum.splits prod.splits)
    with l show ?thesis by auto
  next
    case None
    obtain r0 w0 where f: "appendFunc args c w = (r0, w0)"
      by (cases "appendFunc args c w") auto
    note l = appendFunc_session_local[OF f]
    from assms None f have "w' = w0" "\<forall>u. res = Inr u \<longrightarrow> (\<exists>r. r0 = Inr (u, r))"
      by (auto simp add: updateFunc_of_def split: sum.splits prod.splits)
    with l show ?thesis by auto
  qed
  then show "sessions w' = sessions w" "next_addr w \<le> next_addr w'"
    "\<forall>x. x \<noteq> c \<longrightarrow> session_mem w' x = session_mem w x"
    "\<forall>u. res = Inr u \<longrightarrow> u = c" by blast+
qed




lemma copy_of_update:
  assumes "i < length ps" "j < length ps"
  shows "copy_of (ps[i := x] ! j) = (if j = i then copy_of x else copy_of (ps ! j))"
  using assms by (simp add: nth_list_update)
























lemma thread_step_done:
  assumes "i < length ps" "ps ! i = Failed e \<or> ps ! i = Succeeded b"
  shows "thread_step ops i (w, ps) = (w, ps)"
  using assms by (auto simp add: thread_step_def Let_def)

lemma run_alone_closure:
  fixes f :: "addr \<Rightarrow> world \<Rightarrow> (error + addr \<times> 'r) \<times> world"
  assumes wf: "wf_world w" and conf: "confined f"
    and i: "i < length ps" "i < length ops" and ph: "ps ! i = Ready"
    and uf: "\<And>c w. updateFunc_of (ops ! i) c w =
               (case f c w of (Inl e, w') \<Rightarrow> (Inl e, w') | (Inr (u, r), w') \<Rightarrow> (Inr u, w'))"
  shows "\<exists>res w'. CompareAndSwap (ct_SessionID (ops ! i)) f w = Some (res, w')
           \<and> (\<exists>ph. run ops [i, i, i] (w, ps) = (w', ps[i := ph])
                 \<and> (case res of
                       Inl e \<Rightarrow> ph = Failed e
                     | Inr r \<Rightarrow> \<exists>cur. sessions w (ct_SessionID (ops ! i)) = Some cur
                                 \<and> ph = Succeeded (Version (session_mem w cur))))"
proof (cases "sessions w (ct_SessionID (ops ! i))")
  case None
  let ?sid = "ct_SessionID (ops ! i)"
  have s1: "thread_step ops i (w, ps) = (w, ps[i := Failed (NotFound ?sid)])"
    using i ph None by (simp add: thread_step_def Let_def)
  have s2: "thread_step ops i (w, ps[i := Failed (NotFound ?sid)])
            = (w, ps[i := Failed (NotFound ?sid)])"
    by (rule thread_step_done[where e="NotFound ?sid"]) (use i in simp_all)
  have "run ops [i, i, i] (w, ps) = (w, ps[i := Failed (NotFound ?sid)])"
    by (simp only: run_def fold_Cons fold_Nil comp_apply id_apply s1 s2)
  with CompareAndSwap_NotFound[OF None, of f] show ?thesis by simp
next
  case (Some cur)
  let ?sid = "ct_SessionID (ops ! i)"
  let ?v = "Version (session_mem w cur)"
  have lt: "cur < next_addr w" using wf Some by (simp add: wf_world_def cells_in_def)
  obtain c w1 where cl: "clone cur w = (c, w1)" by (cases "clone cur w") auto
  note k = clone_sessions[OF cl]
  have v1: "session_mem w1 cur = session_mem w cur" using k(4) lt by simp
  have s1: "thread_step ops i (w, ps) = (w1, ps[i := Copied c ?v])"
    using i ph Some cl v1 by (simp add: thread_step_def Let_def)
  obtain r0 w2 where run: "f c w1 = (r0, w2)" by (cases "f c w1") auto
  show ?thesis
  proof (cases r0)
    case (Inl e)
    have u: "updateFunc_of (ops ! i) c w1 = (Inl e, w2)" using run Inl by (simp add: uf)
    have s2: "thread_step ops i (w1, ps[i := Copied c ?v]) = (w2, ps[i := Failed e])"
      using i u by (simp add: thread_step_def Let_def)
    have s3: "thread_step ops i (w2, ps[i := Failed e]) = (w2, ps[i := Failed e])"
      by (rule thread_step_done[where e=e]) (use i in simp_all)
    have "run ops [i, i, i] (w, ps) = (w2, ps[i := Failed e])"
      by (simp only: run_def fold_Cons fold_Nil comp_apply id_apply s1 s2 s3)
    with CompareAndSwap_fail[where f=f, OF Some cl run[unfolded Inl]] show ?thesis by simp
  next
    case (Inr ur)
    obtain u r where ur: "ur = (u, r)" by (cases ur)
    have run': "f c w1 = (Inr (u, r), w2)" using run Inr ur by simp
    have uo: "updateFunc_of (ops ! i) c w1 = (Inr u, w2)" using run' by (simp add: uf)
    note l = updateFunc_of_session_local[OF uo]
    have s2: "thread_step ops i (w1, ps[i := Copied c ?v]) = (w2, ps[i := Updated u ?v])"
      using i uo by (simp add: thread_step_def Let_def)
    have ss: "sessions w2 = sessions w" using l(1) k(3) by simp
    have "cur \<noteq> c" using k(1) lt by simp
    then have v2: "session_mem w2 cur = session_mem w cur" using l(3) v1 by simp
    let ?w' = "w2\<lparr>session_mem := (session_mem w2)(u := (session_mem w2 u)\<lparr>Version := ?v + 1\<rparr>),
                  sessions := (sessions w)(?sid \<mapsto> u)\<rparr>"
    have s3: "thread_step ops i (w2, ps[i := Updated u ?v]) = (?w', ps[i := Succeeded ?v])"
      using i Some ss v2 by (simp add: thread_step_def Let_def)
    have "run ops [i, i, i] (w, ps) = (?w', ps[i := Succeeded ?v])"
      by (simp only: run_def fold_Cons fold_Nil comp_apply id_apply s1 s2 s3)
    with CompareAndSwap_commit[where f=f, OF wf conf Some cl run'] Some show ?thesis by simp
  qed
qed

text \<open>
  A call whose three steps are taken with no step of another call in between does what
  \<^verbatim>\<open>CompareAndSwap\<close> does when it runs alone: the same final state, and success or the
  same error.
\<close>

lemma run_alone:
  assumes wf: "wf_world w" and i: "i < length ps" "i < length ops" and ph: "ps ! i = Ready"
  shows "case ct_ReviseStep (ops ! i) of
           Some reviseStep \<Rightarrow>
             \<exists>res w'. CompareAndSwap (ct_SessionID (ops ! i))
                          (reviseFunc (ops ! i) reviseStep) w = Some (res, w')
               \<and> (\<exists>ph. run ops [i, i, i] (w, ps) = (w', ps[i := ph])
                     \<and> (case res of
                           Inl e \<Rightarrow> ph = Failed e
                         | Inr r \<Rightarrow> \<exists>cur. sessions w (ct_SessionID (ops ! i)) = Some cur
                                     \<and> ph = Succeeded (Version (session_mem w cur))))
         | None \<Rightarrow>
             \<exists>res w'. CompareAndSwap (ct_SessionID (ops ! i)) (appendFunc (ops ! i)) w
                          = Some (res, w')
               \<and> (\<exists>ph. run ops [i, i, i] (w, ps) = (w', ps[i := ph])
                     \<and> (case res of
                           Inl e \<Rightarrow> ph = Failed e
                         | Inr r \<Rightarrow> \<exists>cur. sessions w (ct_SessionID (ops ! i)) = Some cur
                                     \<and> ph = Succeeded (Version (session_mem w cur))))"
proof (cases "ct_ReviseStep (ops ! i)")
  case None
  have uf: "updateFunc_of (ops ! i) c w =
               (case appendFunc (ops ! i) c w of (Inl e, w') \<Rightarrow> (Inl e, w')
                | (Inr (u, r), w') \<Rightarrow> (Inr u, w'))" for c w
    using None by (simp add: updateFunc_of_def)
  from run_alone_closure[OF wf confined_appendFunc i ph uf] None show ?thesis by simp
next
  case (Some reviseStep)
  have uf: "updateFunc_of (ops ! i) c w =
               (case reviseFunc (ops ! i) reviseStep c w of (Inl e, w') \<Rightarrow> (Inl e, w')
                | (Inr (u, r), w') \<Rightarrow> (Inr u, w'))" for c w
    using Some by (simp add: updateFunc_of_def)
  from run_alone_closure[OF wf confined_reviseFunc i ph uf] Some show ?thesis by simp
qed

section \<open>Concurrent calls\<close>



end
